theory Spec2Isabelle
  imports Main "HOL-Library.AList"
begin

section \<open>Errors\<close>

text \<open>
  Every \<^verbatim>\<open>throw\<close> of the sources is a value of this type.  The constructors are the
  error classes of \<^verbatim>\<open>src/errors.ts\<close> and the built-in JavaScript errors the code
  constructs or provokes; a message built from a template is kept as its
  parameters.
\<close>

datatype error =
    CyclicDependencyError string "string list"
      \<comment> \<open>dependency, path; the constructor stores \<^verbatim>\<open>[...path, dependency]\<close>\<close>
  | DependencyNotFoundError string
  | DuplicateTaskError string
  | UnsupportedBufferType string
      \<comment> \<open>\<^verbatim>\<open>new Error(`Unsupported buffer type: "${...}"`)\<close>\<close>
  | CountAlreadyZero string
      \<comment> \<open>\<^verbatim>\<open>new Error(`Dependency count for task ${taskId} is already zero`)\<close>\<close>
  | MissingDependencyForKey string string
      \<comment> \<open>\<^verbatim>\<open>new Error(`Task "${task.id}" is missing a dependency for key "${depKey}"`)\<close>\<close>
  | DeferredAlreadySettled
      \<comment> \<open>\<^verbatim>\<open>new Error("Deferred has already been settled")\<close>\<close>
  | NoInitialTasks
      \<comment> \<open>\<^verbatim>\<open>new Error("Unable to execute workflow without initial tasks")\<close>\<close>
  | NotPartOfPool
      \<comment> \<open>\<^verbatim>\<open>new Error("The runner is not part of the pool")\<close>\<close>
  | PlainError string
      \<comment> \<open>any other \<^verbatim>\<open>new Error(message)\<close>\<close>
  | TypeError string
      \<comment> \<open>thrown by the code, or by the engine on a property access of \<^verbatim>\<open>undefined\<close>\<close>
  | RangeError
      \<comment> \<open>typed-array constructor: byte length not a multiple of the element size\<close>
  | AbortError "error list" string
      \<comment> \<open>Modelled from the spec: the class \<^verbatim>\<open>AbortError\<close> is imported from \<^verbatim>\<open>../errors\<close> but
          not declared in \<^verbatim>\<open>src/errors.ts\<close>; the specification lists \<^verbatim>\<open>AbortError(reason)\<close>
          among the errors surfaced to the caller.  The constructor holds the
          arguments of the \<^verbatim>\<open>new AbortError(...)\<close> expression.\<close>
  | AggregateError "error list" string
  | ErrorResponse string
      \<comment> \<open>a rejected message \<^verbatim>\<open>{ok: false, error}\<close> used as the rejection reason\<close>

section \<open>Buffer types (\<^verbatim>\<open>src/functions.ts\<close>)\<close>

datatype SharedArrayBuffer = SharedArrayBuffer (byteLength: nat)

text \<open>The eleven typed-array classes of the union \<^verbatim>\<open>BufferType\<close>.\<close>

datatype array_kind =
    Float32Array | Float64Array | Int8Array | Int16Array | Int32Array
  | Uint8Array | Uint16Array | Uint32Array | Uint8ClampedArray
  | BigInt64Array | BigUint64Array

text \<open>
  A run-time object handed to \<^verbatim>\<open>getBufferType\<close>: a typed array over a shared buffer,
  or any other object (named by its constructor).  No typed-array class is a
  subclass of another, so \<^verbatim>\<open>x instanceof K\<close> holds exactly for the arrays built by
  \<^verbatim>\<open>new K\<close>.
\<close>

datatype js_object =
    TypedArray array_kind SharedArrayBuffer
  | OtherObject string

fun BYTES_PER_ELEMENT :: "array_kind \<Rightarrow> nat" where
  "BYTES_PER_ELEMENT Float32Array = 4"
| "BYTES_PER_ELEMENT Float64Array = 8"
| "BYTES_PER_ELEMENT Int8Array = 1"
| "BYTES_PER_ELEMENT Int16Array = 2"
| "BYTES_PER_ELEMENT Int32Array = 4"
| "BYTES_PER_ELEMENT Uint8Array = 1"
| "BYTES_PER_ELEMENT Uint16Array = 2"
| "BYTES_PER_ELEMENT Uint32Array = 4"
| "BYTES_PER_ELEMENT Uint8ClampedArray = 1"
| "BYTES_PER_ELEMENT BigInt64Array = 8"
| "BYTES_PER_ELEMENT BigUint64Array = 8"

text \<open>
  \<^verbatim>\<open>new K(buffer)\<close>: the view covers the whole buffer; the engine throws a
  \<^verbatim>\<open>RangeError\<close> when the byte length is not a multiple of the element size.
\<close>

definition new_typed_array :: "array_kind \<Rightarrow> SharedArrayBuffer \<Rightarrow> error + js_object" where
  "new_typed_array k buffer =
     (if byteLength buffer mod BYTES_PER_ELEMENT k = 0
      then Inr (TypedArray k buffer) else Inl RangeError)"

fun instanceof :: "js_object \<Rightarrow> array_kind \<Rightarrow> bool" where
  "instanceof (TypedArray k _) k' = (k = k')"
| "instanceof (OtherObject _) _ = False"

fun constructor_name :: "js_object \<Rightarrow> string" where
  "constructor_name (OtherObject n) = n"
| "constructor_name (TypedArray Float32Array _) = ''Float32Array''"
| "constructor_name (TypedArray Float64Array _) = ''Float64Array''"
| "constructor_name (TypedArray Int8Array _) = ''Int8Array''"
| "constructor_name (TypedArray Int16Array _) = ''Int16Array''"
| "constructor_name (TypedArray Int32Array _) = ''Int32Array''"
| "constructor_name (TypedArray Uint8Array _) = ''Uint8Array''"
| "constructor_name (TypedArray Uint16Array _) = ''Uint16Array''"
| "constructor_name (TypedArray Uint32Array _) = ''Uint32Array''"
| "constructor_name (TypedArray Uint8ClampedArray _) = ''Uint8ClampedArray''"
| "constructor_name (TypedArray BigInt64Array _) = ''BigInt64Array''"
| "constructor_name (TypedArray BigUint64Array _) = ''BigUint64Array''"

definition getBufferType :: "js_object \<Rightarrow> error + string" where
  "getBufferType buffer =
     (if instanceof buffer Float32Array then Inr ''float32''
      else if instanceof buffer Float64Array then Inr ''float64''
      else if instanceof buffer Int8Array then Inr ''int8''
      else if instanceof buffer Int16Array then Inr ''int16''
      else if instanceof buffer Int32Array then Inr ''int32''
      else if instanceof buffer Uint8Array then Inr ''uint8''
      else if instanceof buffer Uint16Array then Inr ''uint16''
      else if instanceof buffer Uint32Array then Inr ''uint32''
      else if instanceof buffer Uint8ClampedArray then Inr ''uint8_clamped''
      else if instanceof buffer BigInt64Array then Inr ''bigint64''
      else if instanceof buffer BigUint64Array then Inr ''biguint64''
      else Inl (UnsupportedBufferType (constructor_name buffer)))"

definition fromSharedArrayBuffer :: "string \<Rightarrow> SharedArrayBuffer \<Rightarrow> error + js_object" where
  "fromSharedArrayBuffer type buffer =
     (if type = ''float32'' then new_typed_array Float32Array buffer
      else if type = ''float64'' then new_typed_array Float64Array buffer
      else if type = ''int8'' then new_typed_array Int8Array buffer
      else if type = ''int16'' then new_typed_array Int16Array buffer
      else if type = ''int32'' then new_typed_array Int32Array buffer
      else if type = ''uint8'' then new_typed_array Uint8Array buffer
      else if type = ''uint16'' then new_typed_array Uint16Array buffer
      else if type = ''uint32'' then new_typed_array Uint32Array buffer
      else if type = ''uint8_clamped'' then new_typed_array Uint8ClampedArray buffer
      else if type = ''bigint64'' then new_typed_array BigInt64Array buffer
      else if type = ''biguint64'' then new_typed_array BigUint64Array buffer
      else Inl (UnsupportedBufferType type))"

text \<open>The enumerated tag strings (the right-hand sides of the type \<^verbatim>\<open>FromBufferType\<close>).\<close>

definition bufferTypeTags :: "string list" where
  "bufferTypeTags =
     [''float32'', ''float64'', ''int8'', ''int16'', ''int32'', ''uint8'',
      ''uint16'', ''uint32'', ''uint8_clamped'', ''bigint64'', ''biguint64'']"

section \<open>\<^verbatim>\<open>DependencyCounter\<close> (\<^verbatim>\<open>src/main/lib/DependencyCounter.ts\<close>)\<close>

text \<open>
  The private field \<^verbatim>\<open>#counts\<close> is a \<^verbatim>\<open>Map<string, number>\<close>.  A JavaScript map
  iterates in insertion order and \<^verbatim>\<open>set\<close> on a present key keeps the key's position,
  which is what \<^const>\<open>AList.update\<close> does on an association list.  Counts are
  integers; nothing in the class keeps them from becoming negative.

  The file holds the class twice.  The first copy has no constructor and its
  \<^verbatim>\<open>get\<close> defaults to 0; the second has \<^verbatim>\<open>init\<close> and is the one \<^verbatim>\<open>executeWorkflow\<close>
  constructs with the task ids.
\<close>

type_synonym counts = "(string \<times> int) list"

subsection \<open>First copy (lines 4 to 86)\<close>

definition DependencyCounter1_set :: "counts \<Rightarrow> string \<Rightarrow> int \<Rightarrow> int \<times> counts" where
  "DependencyCounter1_set cs taskId count = (count, AList.update taskId count cs)"

definition DependencyCounter1_increment :: "counts \<Rightarrow> string \<Rightarrow> int \<Rightarrow> int \<times> counts" where
  "DependencyCounter1_increment cs taskId count =
     (let prevCount = (case map_of cs taskId of Some c \<Rightarrow> c | None \<Rightarrow> 0);
          newCount = prevCount + count
      in (newCount, AList.update taskId newCount cs))"

definition DependencyCounter1_decrement :: "counts \<Rightarrow> string \<Rightarrow> error + int \<times> counts" where
  "DependencyCounter1_decrement cs taskId =
     (let prevCount = (case map_of cs taskId of Some c \<Rightarrow> c | None \<Rightarrow> 0);
          newCount = prevCount - 1
      in if newCount < 0 then Inl (CountAlreadyZero taskId)
         else Inr (newCount, AList.update taskId (newCount - 1) cs))"

definition DependencyCounter1_get :: "counts \<Rightarrow> string \<Rightarrow> int" where
  "DependencyCounter1_get cs taskId = (case map_of cs taskId of Some c \<Rightarrow> c | None \<Rightarrow> 0)"

definition DependencyCounter1_isZero :: "counts \<Rightarrow> string \<Rightarrow> bool" where
  "DependencyCounter1_isZero cs taskId = (DependencyCounter1_get cs taskId = 0)"

subsection \<open>Second copy (lines 90 to 193)\<close>

fun DependencyCounter_init :: "counts \<Rightarrow> string list \<Rightarrow> counts" where
  "DependencyCounter_init cs [] = cs"
| "DependencyCounter_init cs (taskId # deps) =
     DependencyCounter_init (AList.update taskId 0 cs) deps"

definition DependencyCounter_new :: "string list \<Rightarrow> counts" where
  "DependencyCounter_new deps = DependencyCounter_init [] deps"

definition DependencyCounter_set :: "counts \<Rightarrow> string \<Rightarrow> int \<Rightarrow> int \<times> counts" where
  "DependencyCounter_set cs taskId count = (count, AList.update taskId count cs)"

definition DependencyCounter_increment :: "counts \<Rightarrow> string \<Rightarrow> int \<Rightarrow> int \<times> counts" where
  "DependencyCounter_increment cs taskId count =
     (let prevCount = (case map_of cs taskId of Some c \<Rightarrow> c | None \<Rightarrow> 0);
          newCount = prevCount + count
      in (newCount, AList.update taskId newCount cs))"

definition DependencyCounter_decrement :: "counts \<Rightarrow> string \<Rightarrow> error + int \<times> counts" where
  "DependencyCounter_decrement cs taskId =
     (let prevCount = (case map_of cs taskId of Some c \<Rightarrow> c | None \<Rightarrow> 0);
          newCount = prevCount - 1
      in if newCount < 0 then Inl (CountAlreadyZero taskId)
         else Inr (newCount, AList.update taskId newCount cs))"

definition DependencyCounter_get :: "counts \<Rightarrow> string \<Rightarrow> int option" where
  "DependencyCounter_get cs taskId = map_of cs taskId"

definition DependencyCounter_isZero :: "counts \<Rightarrow> string \<Rightarrow> bool" where
  "DependencyCounter_isZero cs taskId = (DependencyCounter_get cs taskId = Some 0)"

definition DependencyCounter_entries :: "counts \<Rightarrow> (string \<times> int) list" where
  "DependencyCounter_entries cs = cs"

definition DependencyCounter_keys :: "counts \<Rightarrow> string list" where
  "DependencyCounter_keys cs = map fst cs"

section \<open>Task descriptors and graph validation (\<^verbatim>\<open>src/functions.ts\<close>)\<close>

text \<open>
  A dependency value of a descriptor is typed \<^verbatim>\<open>string | string[]\<close>, but the
  validator tests what it finds at run time (\<^verbatim>\<open>if (dep)\<close>, \<^verbatim>\<open>Array.isArray(dep)\<close>,
  \<^verbatim>\<open>typeof d === "string"\<close>), so the model keeps the values those tests tell apart:
  a string, an array whose elements are strings or something else, and
  \<^verbatim>\<open>null\<close>/\<^verbatim>\<open>undefined\<close>.
\<close>

datatype group_elem = Str string | NonString

datatype dep_value = Single string | Group "group_elem list" | Nullish

text \<open>JavaScript truthiness: the empty string and \<^verbatim>\<open>null\<close>/\<^verbatim>\<open>undefined\<close> are falsy, every array is truthy.\<close>

fun truthy :: "dep_value \<Rightarrow> bool" where
  "truthy (Single d) = (d \<noteq> [])"
| "truthy (Group _) = True"
| "truthy Nullish = False"

text \<open>
  \<^verbatim>\<open>dependencies\<close> and \<^verbatim>\<open>config\<close> may be \<^verbatim>\<open>null\<close>.  The dependency object is kept as
  the list of its entries in the order \<^verbatim>\<open>for (key in deps)\<close> and \<^verbatim>\<open>Object.keys\<close>
  enumerate them.
\<close>

record TaskDescriptor =
  td_id :: string
  td_type :: string
  td_dependencies :: "(string \<times> dep_value) list option"
  td_config :: "(string \<times> string) list option"

text \<open>
  \<^verbatim>\<open>taskMap\<close> and \<^verbatim>\<open>visited\<close> are object literals \<^verbatim>\<open>{}\<close>, so a read \<^verbatim>\<open>obj[key]\<close>
  that finds no own property falls through to \<^verbatim>\<open>Object.prototype\<close>, whose
  members are functions or objects and therefore truthy.
\<close>

definition Object_prototype_keys :: "string list" where
  "Object_prototype_keys =
     [''constructor'', ''__defineGetter__'', ''__defineSetter__'', ''hasOwnProperty'',
      ''__lookupGetter__'', ''__lookupSetter__'', ''isPrototypeOf'',
      ''propertyIsEnumerable'', ''toString'', ''valueOf'', ''__proto__'',
      ''toLocaleString'']"

text \<open>\<^verbatim>\<open>taskMap[key]\<close> read as a condition.\<close>

definition taskMap_truthy :: "(string \<rightharpoonup> TaskDescriptor) \<Rightarrow> string \<Rightarrow> bool" where
  "taskMap_truthy taskMap key =
     (case taskMap key of Some _ \<Rightarrow> True | None \<Rightarrow> key \<in> set Object_prototype_keys)"

text \<open>\<^verbatim>\<open>visited[key]\<close> read as a condition; own properties are only ever set to \<^verbatim>\<open>true\<close>.\<close>

definition visited_truthy :: "string set \<Rightarrow> string \<Rightarrow> bool" where
  "visited_truthy visited key = (key \<in> visited \<or> key \<in> set Object_prototype_keys)"

record visit_state =
  visited :: "string set"
  stack :: "string list"

text \<open>The constructor of \<^verbatim>\<open>CyclicDependencyError\<close> copies the path and appends the dependency.\<close>

definition new_CyclicDependencyError :: "string \<Rightarrow> string list \<Rightarrow> error" where
  "new_CyclicDependencyError dependency path = CyclicDependencyError dependency (path @ [dependency])"

text \<open>
  The inner function \<^verbatim>\<open>visit\<close> with its two loops, over the keys of \<^verbatim>\<open>deps\<close> and
  over the elements of a group.  The first argument bounds the depth of the
  recursion (\<^verbatim>\<open>None\<close> means the bound was hit); \<^verbatim>\<open>Inl\<close> is a thrown error, which
  leaves \<^verbatim>\<open>validateTaskGraph\<close> at once.
\<close>

fun visit :: "nat \<Rightarrow> (string \<rightharpoonup> TaskDescriptor) \<Rightarrow> string \<Rightarrow> visit_state
                \<Rightarrow> (error + visit_state) option"
  and visit_keys :: "nat \<Rightarrow> (string \<rightharpoonup> TaskDescriptor) \<Rightarrow> (string \<times> dep_value) list
                \<Rightarrow> visit_state \<Rightarrow> (error + visit_state) option"
  and visit_group :: "nat \<Rightarrow> (string \<rightharpoonup> TaskDescriptor) \<Rightarrow> group_elem list
                \<Rightarrow> visit_state \<Rightarrow> (error + visit_state) option"
where
  "visit 0 taskMap tid s = None"
| "visit (Suc n) taskMap tid s =
     (if visited_truthy (visited s) tid
      then Some (Inl (new_CyclicDependencyError tid (stack s)))
      else
        let s1 = s\<lparr>visited := insert tid (visited s), stack := stack s @ [tid]\<rparr> in
        (case taskMap tid of
           None \<Rightarrow> Some (Inl (TypeError ''Cannot read properties of undefined''))
         | Some task \<Rightarrow>
            (case td_dependencies task of
               None \<Rightarrow> Some (Inr (s1\<lparr>stack := butlast (stack s1)\<rparr>))
             | Some deps \<Rightarrow>
                (case visit_keys n taskMap deps s1 of
                   Some (Inr s2) \<Rightarrow> Some (Inr (s2\<lparr>stack := butlast (stack s2)\<rparr>))
                 | r \<Rightarrow> r))))"
| "visit_keys n taskMap [] s = Some (Inr s)"
| "visit_keys n taskMap ((key, dep) # rest) s =
     (if truthy dep then
        (case dep of
           Group ds \<Rightarrow>
             (case visit_group n taskMap ds s of
                Some (Inr s') \<Rightarrow> visit_keys n taskMap rest s'
              | r \<Rightarrow> r)
         | Single d \<Rightarrow>
             (if taskMap_truthy taskMap d then
                (case visit n taskMap d s of
                   Some (Inr s') \<Rightarrow> visit_keys n taskMap rest s'
                 | r \<Rightarrow> r)
              else Some (Inl (DependencyNotFoundError d)))
         | Nullish \<Rightarrow> visit_keys n taskMap rest s)
      else visit_keys n taskMap rest s)"
| "visit_group n taskMap [] s = Some (Inr s)"
| "visit_group n taskMap (NonString # rest) s = visit_group n taskMap rest s"
| "visit_group n taskMap (Str d # rest) s =
     (if taskMap_truthy taskMap d then
        (case visit n taskMap d s of
           Some (Inr s') \<Rightarrow> visit_group n taskMap rest s'
         | r \<Rightarrow> r)
      else Some (Inl (DependencyNotFoundError d)))"

text \<open>The first loop of \<^verbatim>\<open>validateTaskGraph\<close>: fill \<^verbatim>\<open>taskMap\<close>, refusing an id already there.\<close>

fun fill_taskMap :: "(string \<rightharpoonup> TaskDescriptor) \<Rightarrow> TaskDescriptor list
                      \<Rightarrow> error + (string \<rightharpoonup> TaskDescriptor)" where
  "fill_taskMap taskMap [] = Inr taskMap"
| "fill_taskMap taskMap (task # tasks) =
     (if taskMap_truthy taskMap (td_id task) then Inl (DuplicateTaskError (td_id task))
      else fill_taskMap (taskMap(td_id task \<mapsto> task)) tasks)"

text \<open>The second loop: \<^verbatim>\<open>visit(task.id)\<close> for each task in input order.\<close>

fun visit_all :: "nat \<Rightarrow> (string \<rightharpoonup> TaskDescriptor) \<Rightarrow> TaskDescriptor list \<Rightarrow> visit_state
                    \<Rightarrow> (error + visit_state) option" where
  "visit_all n taskMap [] s = Some (Inr s)"
| "visit_all n taskMap (task # tasks) s =
     (case visit n taskMap (td_id task) s of
        Some (Inr s') \<Rightarrow> visit_all n taskMap tasks s'
      | r \<Rightarrow> r)"

text \<open>
  \<^verbatim>\<open>validateTaskGraph\<close> returns nothing; \<^verbatim>\<open>Some (Inr ())\<close> is the normal return and
  \<^verbatim>\<open>Some (Inl e)\<close> the thrown error.  Every call of \<^verbatim>\<open>visit\<close> that goes deeper marks
  an id not marked before, so a depth of one more than the number of tasks is
  never reached (lemma \<open>validateTaskGraph_returns\<close>).
\<close>

definition validateTaskGraph :: "TaskDescriptor list \<Rightarrow> (error + unit) option" where
  "validateTaskGraph tasks =
     (case fill_taskMap Map.empty tasks of
        Inl e \<Rightarrow> Some (Inl e)
      | Inr taskMap \<Rightarrow>
         (case visit_all (Suc (length tasks)) taskMap tasks \<lparr>visited = {}, stack = []\<rparr> of
            None \<Rightarrow> None
          | Some (Inl e) \<Rightarrow> Some (Inl e)
          | Some (Inr _) \<Rightarrow> Some (Inr ())))"

text \<open>The descriptor with the references the validator skips taken out.\<close>

fun is_Str :: "group_elem \<Rightarrow> bool" where
  "is_Str (Str _) = True"
| "is_Str NonString = False"

fun strip_value :: "dep_value \<Rightarrow> dep_value" where
  "strip_value (Group ds) = Group (filter is_Str ds)"
| "strip_value v = v"

definition strip_deps :: "(string \<times> dep_value) list \<Rightarrow> (string \<times> dep_value) list" where
  "strip_deps deps = map (\<lambda>(key, dep). (key, strip_value dep)) (filter (\<lambda>(key, dep). truthy dep) deps)"

definition strip_task :: "TaskDescriptor \<Rightarrow> TaskDescriptor" where
  "strip_task task = task\<lparr>td_dependencies := map_option strip_deps (td_dependencies task)\<rparr>"

text \<open>
  The references of a task that \<^verbatim>\<open>visit\<close> does follow: the non-empty strings under
  its dependency keys and the strings in its groups, in the order of the loops.
\<close>

fun followed_of_group :: "group_elem list \<Rightarrow> string list" where
  "followed_of_group [] = []"
| "followed_of_group (Str d # rest) = d # followed_of_group rest"
| "followed_of_group (NonString # rest) = followed_of_group rest"

fun followed_of_keys :: "(string \<times> dep_value) list \<Rightarrow> string list" where
  "followed_of_keys [] = []"
| "followed_of_keys ((key, Single d) # rest) =
     (if d = [] then followed_of_keys rest else d # followed_of_keys rest)"
| "followed_of_keys ((key, Group ds) # rest) = followed_of_group ds @ followed_of_keys rest"
| "followed_of_keys ((key, Nullish) # rest) = followed_of_keys rest"

definition followed_references :: "TaskDescriptor \<Rightarrow> string list" where
  "followed_references task =
     (case td_dependencies task of None \<Rightarrow> [] | Some deps \<Rightarrow> followed_of_keys deps)"

section \<open>\<^verbatim>\<open>Deferred\<close> (\<^verbatim>\<open>src/util.ts\<close>)\<close>

text \<open>
  A deferred promise: unsettled, or settled once with a value or a reason.  The
  flag \<^verbatim>\<open>#settled\<close> is the state not being \<open>Unsettled\<close>; settling again throws.
\<close>

datatype 'a deferred = Unsettled | Resolved 'a | Rejected error

fun settled :: "'a deferred \<Rightarrow> bool" where
  "settled Unsettled = False"
| "settled _ = True"

definition Deferred_resolve :: "'a deferred \<Rightarrow> 'a \<Rightarrow> error + 'a deferred" where
  "Deferred_resolve d v = (if settled d then Inl DeferredAlreadySettled else Inr (Resolved v))"

definition Deferred_reject :: "'a deferred \<Rightarrow> error \<Rightarrow> error + 'a deferred" where
  "Deferred_reject d reason = (if settled d then Inl DeferredAlreadySettled else Inr (Rejected reason))"

section \<open>Dependency bookkeeping of the scheduler (\<^verbatim>\<open>src/main/functions.ts\<close>)\<close>

text \<open>
  A \<^verbatim>\<open>Task\<close> carries, per dependency key, one shared buffer or an array of them
  (\<^verbatim>\<open>ToSharedArrayBufferMap\<close>); the functions below only ask whether the entry is
  there, whether it is an array, and how long the array is.
\<close>

datatype task_dep = Buffer SharedArrayBuffer | Buffers "SharedArrayBuffer list"

record Task =
  t_id :: string
  t_type :: string
  t_dependencies :: "(string \<times> task_dep) list"
  t_config :: "(string \<times> string) list"
  t_output :: string

text \<open>
  \<^verbatim>\<open>Map<string, Set<string>>\<close> and \<^verbatim>\<open>Map<string, Deferred<void>>\<close>, both in insertion
  order; a \<^verbatim>\<open>Set\<close> is the list of its members in insertion order.
\<close>

type_synonym dependents_map = "(string \<times> string list) list"
type_synonym readiness_map = "(string \<times> unit deferred) list"

definition Set_add :: "string list \<Rightarrow> string \<Rightarrow> string list" where
  "Set_add xs x = (if x \<in> set xs then xs else xs @ [x])"

definition Set_delete :: "string list \<Rightarrow> string \<Rightarrow> string list" where
  "Set_delete xs x = filter (\<lambda>y. y \<noteq> x) xs"

text \<open>\<^verbatim>\<open>Object.keys(descriptor.dependencies)\<close>, or the empty array for \<^verbatim>\<open>null\<close>.\<close>

definition depKeys_of :: "TaskDescriptor \<Rightarrow> string list" where
  "depKeys_of descriptor =
     (case td_dependencies descriptor of None \<Rightarrow> [] | Some deps \<Rightarrow> map fst deps)"

text \<open>
  \<^verbatim>\<open>descriptor.dependencies![depKey][i]\<close>.  Indexing \<^verbatim>\<open>null\<close> throws; indexing a
  string gives its \<open>i\<close>-th character as a string; past the end the value is
  \<^verbatim>\<open>undefined\<close> (\<open>None\<close>).
\<close>

definition descriptor_dep_at :: "TaskDescriptor \<Rightarrow> string \<Rightarrow> nat \<Rightarrow> error + group_elem option" where
  "descriptor_dep_at descriptor depKey i =
     (case td_dependencies descriptor of
        None \<Rightarrow> Inl (TypeError ''Cannot read properties of null'')
      | Some deps \<Rightarrow>
         (case map_of deps depKey of
            None \<Rightarrow> Inl (TypeError ''Cannot read properties of undefined'')
          | Some Nullish \<Rightarrow> Inl (TypeError ''Cannot read properties of null'')
          | Some (Single d) \<Rightarrow> Inr (if i < length d then Some (Str [d ! i]) else None)
          | Some (Group ds) \<Rightarrow> Inr (if i < length ds then Some (ds ! i) else None)))"

text \<open>\<^verbatim>\<open>dependents.get(key)!.add(taskId)\<close>: a key that is not a string of the map has no set.\<close>

definition dependents_add :: "dependents_map \<Rightarrow> group_elem option \<Rightarrow> string \<Rightarrow> error + dependents_map" where
  "dependents_add dependents key taskId =
     (case key of
        Some (Str k) \<Rightarrow>
          (case map_of dependents k of
             Some members \<Rightarrow> Inr (AList.update k (Set_add members taskId) dependents)
           | None \<Rightarrow> Inl (TypeError ''Cannot read properties of undefined (reading add)''))
      | _ \<Rightarrow> Inl (TypeError ''Cannot read properties of undefined (reading add)''))"

text \<open>The inner loop of \<^verbatim>\<open>initializeDependencies\<close> over the positions \<open>i, i + 1, \<dots>\<close> of a group.\<close>

fun initialize_group :: "TaskDescriptor \<Rightarrow> string \<Rightarrow> string \<Rightarrow> nat \<Rightarrow> nat \<Rightarrow> dependents_map
                           \<Rightarrow> error + dependents_map" where
  "initialize_group descriptor taskId depKey i 0 dependents = Inr dependents"
| "initialize_group descriptor taskId depKey i (Suc todo) dependents =
     (case descriptor_dep_at descriptor depKey i of
        Inl e \<Rightarrow> Inl e
      | Inr depTaskId \<Rightarrow>
         (case dependents_add dependents depTaskId taskId of
            Inl e \<Rightarrow> Inl e
          | Inr dependents' \<Rightarrow> initialize_group descriptor taskId depKey (Suc i) todo dependents'))"

text \<open>
  What the functions learn from \<^verbatim>\<open>task.dependencies[depKey]\<close>: nothing is there
  (\<^verbatim>\<open>undefined\<close>), an array of some length, or another truthy value.  The last is
  a single buffer, or, \<^verbatim>\<open>task.dependencies\<close> being a plain object, the member of
  \<^verbatim>\<open>Object.prototype\<close> of that name.
\<close>

datatype dep_read = Absent | IsArray nat | NotArray

definition task_dependency :: "Task \<Rightarrow> string \<Rightarrow> dep_read" where
  "task_dependency task depKey =
     (case map_of (t_dependencies task) depKey of
        Some (Buffers dep) \<Rightarrow> IsArray (length dep)
      | Some (Buffer dep) \<Rightarrow> NotArray
      | None \<Rightarrow> (if depKey \<in> set Object_prototype_keys then NotArray else Absent))"

text \<open>The loop of \<^verbatim>\<open>initializeDependencies\<close> over the dependency keys.\<close>

fun initialize_keys :: "Task \<Rightarrow> TaskDescriptor \<Rightarrow> string list \<Rightarrow> counts \<times> dependents_map
                          \<Rightarrow> error + counts \<times> dependents_map" where
  "initialize_keys task descriptor [] st = Inr st"
| "initialize_keys task descriptor (depKey # depKeys) (dependencyCounter, dependents) =
     (case task_dependency task depKey of
        Absent \<Rightarrow> Inl (MissingDependencyForKey (t_id task) depKey)
      | IsArray dep_length \<Rightarrow>
         (let dependencyCounter' =
                snd (DependencyCounter_increment dependencyCounter (t_id task) (int dep_length))
          in case initialize_group descriptor (t_id task) depKey 0 dep_length dependents of
               Inl e \<Rightarrow> Inl e
             | Inr dependents' \<Rightarrow>
                 initialize_keys task descriptor depKeys (dependencyCounter', dependents'))
      | NotArray \<Rightarrow>
         (let dependencyCounter' = snd (DependencyCounter_increment dependencyCounter (t_id task) 1)
          in case dependents_add dependents (Some (Str depKey)) (t_id task) of
               Inl e \<Rightarrow> Inl e
             | Inr dependents' \<Rightarrow>
                 initialize_keys task descriptor depKeys (dependencyCounter', dependents')))"

definition initializeDependencies :: "Task \<Rightarrow> TaskDescriptor \<Rightarrow> counts \<Rightarrow> dependents_map
                                        \<Rightarrow> error + counts \<times> dependents_map" where
  "initializeDependencies task descriptor dependencyCounter dependents =
     initialize_keys task descriptor (depKeys_of descriptor) (dependencyCounter, dependents)"

text \<open>
  \<^verbatim>\<open>updateDependencies\<close> changes the counter and the readiness map in place, and
  its caller goes on with them after catching what it throws; so the result is
  the state reached together with the error thrown, if any.

  The three places that decrement share the two statements
  \<^verbatim>\<open>newCount = dependencyCounter.decrement(k); if (newCount === 0) taskReadiness.get(k)!.resolve()\<close>.
  For a key that is \<^verbatim>\<open>undefined\<close> or not a string the counter holds nothing, so
  \<^verbatim>\<open>decrement\<close> throws.
\<close>

type_synonym update_state = "counts \<times> readiness_map"

definition decrement_and_resolve :: "group_elem option \<Rightarrow> update_state \<Rightarrow> update_state \<times> error option" where
  "decrement_and_resolve key st =
     (case key of
        None \<Rightarrow> (st, Some (CountAlreadyZero ''undefined''))
      | Some NonString \<Rightarrow> (st, Some (CountAlreadyZero ''[not a string]''))
      | Some (Str k) \<Rightarrow>
         (case DependencyCounter_decrement (fst st) k of
            Inl e \<Rightarrow> (st, Some e)
          | Inr (newCount, counter') \<Rightarrow>
             (if newCount = 0 then
                (case map_of (snd st) k of
                   None \<Rightarrow> ((counter', snd st),
                              Some (TypeError ''Cannot read properties of undefined (reading resolve)''))
                 | Some d \<Rightarrow>
                    (case Deferred_resolve d () of
                       Inl e \<Rightarrow> ((counter', snd st), Some e)
                     | Inr d' \<Rightarrow> ((counter', AList.update k d' (snd st)), None)))
              else ((counter', snd st), None))))"

fun update_group :: "TaskDescriptor \<Rightarrow> string \<Rightarrow> nat \<Rightarrow> nat \<Rightarrow> update_state
                       \<Rightarrow> update_state \<times> error option" where
  "update_group descriptor depKey i 0 st = (st, None)"
| "update_group descriptor depKey i (Suc todo) st =
     (case descriptor_dep_at descriptor depKey i of
        Inl e \<Rightarrow> (st, Some e)
      | Inr depTaskId \<Rightarrow>
         (case decrement_and_resolve depTaskId st of
            (st', None) \<Rightarrow> update_group descriptor depKey (Suc i) todo st'
          | (st', Some e) \<Rightarrow> (st', Some e)))"

fun update_keys :: "Task \<Rightarrow> TaskDescriptor \<Rightarrow> string list \<Rightarrow> update_state
                      \<Rightarrow> update_state \<times> error option" where
  "update_keys task descriptor [] st = (st, None)"
| "update_keys task descriptor (depKey # depKeys) st =
     (case (case task_dependency task depKey of
              IsArray dep_length \<Rightarrow> update_group descriptor depKey 0 dep_length st
            | _ \<Rightarrow> decrement_and_resolve (Some (Str depKey)) st) of
        (st', None) \<Rightarrow> update_keys task descriptor depKeys st'
      | (st', Some e) \<Rightarrow> (st', Some e))"

fun update_dependents :: "string list \<Rightarrow> update_state \<Rightarrow> update_state \<times> error option" where
  "update_dependents [] st = (st, None)"
| "update_dependents (dependent # rest) st =
     (case decrement_and_resolve (Some (Str dependent)) st of
        (st', None) \<Rightarrow> update_dependents rest st'
      | (st', Some e) \<Rightarrow> (st', Some e))"

definition updateDependencies :: "Task \<Rightarrow> TaskDescriptor \<Rightarrow> counts \<Rightarrow> dependents_map \<Rightarrow> readiness_map
                                    \<Rightarrow> update_state \<times> error option" where
  "updateDependencies task descriptor dependencyCounter dependents taskReadiness =
     (case update_keys task descriptor (depKeys_of descriptor) (dependencyCounter, taskReadiness) of
        (st, Some e) \<Rightarrow> (st, Some e)
      | (st, None) \<Rightarrow>
         (case map_of dependents (t_id task) of
            None \<Rightarrow> (st, Some (TypeError ''undefined is not iterable''))
          | Some members \<Rightarrow> update_dependents members st))"

section \<open>\<^verbatim>\<open>executeWorkflow\<close> of the main worker (\<^verbatim>\<open>src/main/api.ts\<close>)\<close>

text \<open>
  The sources hold this generator twice: in \<^verbatim>\<open>src/main/api.ts\<close> and, in a later
  revision, in the unnamed first part.  Both build the same state and run the
  same loop; they differ in the closures \<^verbatim>\<open>resolve\<close>, \<^verbatim>\<open>reject\<close> and \<^verbatim>\<open>abort\<close>.  The
  constants without suffix follow the later revision, those ending in \<open>_api\<close>
  follow \<^verbatim>\<open>src/main/api.ts\<close>.
\<close>

record ExecutableWorkflow =
  wf_id :: string
  wf_tasks :: "(string \<times> Task) list"
  wf_taskDescriptors :: "(string \<times> TaskDescriptor) list"

text \<open>
  A message of a runner as the closures read it: \<^verbatim>\<open>id\<close>, \<^verbatim>\<open>payload.taskId\<close>,
  \<^verbatim>\<open>payload.output\<close>, \<^verbatim>\<open>finish\<close>, and the fields \<^verbatim>\<open>ok\<close> and \<^verbatim>\<open>error\<close> that
  \<^verbatim>\<open>isErrorResponse\<close> and the loop read (absent on a well-typed \<^verbatim>\<open>TaskResult\<close>).
\<close>

record TaskResult =
  r_id :: string
  r_taskId :: string
  r_output :: "SharedArrayBuffer option"
  r_finish :: bool
  r_ok :: "bool option"
  r_error :: string

text \<open>\<^verbatim>\<open>isErrorResponse(message)\<close> (\<^verbatim>\<open>src/guards.ts\<close>) without type and id: \<^verbatim>\<open>message.ok === false\<close>.\<close>

definition isErrorResponse :: "TaskResult \<Rightarrow> bool" where
  "isErrorResponse message = (r_ok message = Some False)"

text \<open>What the generator yields; the \<^verbatim>\<open>requestId\<close> is a random UUID and left out.\<close>

datatype WorkflowResult =
    IntermediateWorkflowResult string "SharedArrayBuffer option"
  | FinalWorkflowResult "string \<rightharpoonup> SharedArrayBuffer"

text \<open>The local variables of \<^verbatim>\<open>executeWorkflow\<close> that its closures share.\<close>

record workflow_state =
  results :: "(string \<times> SharedArrayBuffer option) list"
  taskReadiness :: readiness_map
  dependencyCount :: counts
  dependents :: dependents_map
  remainingTasks :: "string list"
  deferredMessage :: "TaskResult deferred option"
  aborted :: bool

text \<open>
  \<^verbatim>\<open>resultsMapToObj\<close>: the entries become properties of an object literal.  A
  property whose value is \<^verbatim>\<open>undefined\<close> reads like a missing one, and assigning to
  \<^verbatim>\<open>__proto__\<close> creates no property.
\<close>

fun resultsMapToObj :: "(string \<times> SharedArrayBuffer option) list \<Rightarrow> (string \<rightharpoonup> SharedArrayBuffer)" where
  "resultsMapToObj [] = Map.empty"
| "resultsMapToObj ((key, v) # rest) =
     (if key = ''__proto__'' then resultsMapToObj rest
      else (\<lambda>k. if k = key then v else resultsMapToObj rest k))"

text \<open>
  The first loop of the generator (``Initialize dependency count and
  dependents''): for each task in the order of \<^verbatim>\<open>tasks.values()\<close>, a fresh set and
  a fresh deferred under \<^verbatim>\<open>task.id\<close>, then \<^verbatim>\<open>initializeDependencies\<close> with the
  descriptor found under \<^verbatim>\<open>task.id\<close>.  Without a descriptor the first statement
  of \<^verbatim>\<open>initializeDependencies\<close> reads a property of \<^verbatim>\<open>undefined\<close>.
\<close>

fun initialize_tasks :: "(string \<times> TaskDescriptor) list \<Rightarrow> Task list \<Rightarrow> workflow_state
                           \<Rightarrow> error + workflow_state" where
  "initialize_tasks taskDescriptors [] st = Inr st"
| "initialize_tasks taskDescriptors (task # tasks) st =
     (let dependents1 = AList.update (t_id task) [] (dependents st);
          taskReadiness1 = AList.update (t_id task) Unsettled (taskReadiness st)
      in case map_of taskDescriptors (t_id task) of
           None \<Rightarrow> Inl (TypeError ''Cannot read properties of undefined (reading dependencies)'')
         | Some descriptor \<Rightarrow>
            (case initializeDependencies task descriptor (dependencyCount st) dependents1 of
               Inl e \<Rightarrow> Inl e
             | Inr (dependencyCount', dependents') \<Rightarrow>
                 initialize_tasks taskDescriptors tasks
                   (st\<lparr>taskReadiness := taskReadiness1, dependencyCount := dependencyCount',
                      dependents := dependents'\<rparr>)))"

text \<open>
  The generator up to the loop: the declarations, the first loop and the guard
  ``Ensure there are initial tasks''.  \<^verbatim>\<open>new Set(tasks.keys())\<close> drops repeated
  keys, which a \<^verbatim>\<open>Map\<close> does not have.
\<close>

definition initial_state :: "ExecutableWorkflow \<Rightarrow> workflow_state" where
  "initial_state workflow =
     \<lparr>results = [], taskReadiness = [],
      dependencyCount = DependencyCounter_new (remdups (map fst (wf_tasks workflow))),
      dependents = [],
      remainingTasks = remdups (map fst (wf_tasks workflow)),
      deferredMessage = None, aborted = False\<rparr>"

definition start_workflow :: "ExecutableWorkflow \<Rightarrow> error + workflow_state" where
  "start_workflow workflow =
     (case initialize_tasks (wf_taskDescriptors workflow) (map snd (wf_tasks workflow))
             (initial_state workflow) of
        Inl e \<Rightarrow> Inl e
      | Inr st \<Rightarrow>
         (let initialTasks =
                map fst (filter (\<lambda>(tid, count). count = 0) (DependencyCounter_entries (dependencyCount st)))
          in if initialTasks = [] then Inl NoInitialTasks
             else Inr (st\<lparr>deferredMessage := Some Unsettled\<rparr>)))"

text \<open>
  A call of one of the closures: the state it leaves, how it settled the
  deferred message it found (if it did), and the error it threw (if any).
\<close>

record callback_result =
  cb_state :: workflow_state
  cb_settlement :: "TaskResult deferred option"
  cb_thrown :: "error option"

text \<open>The loop ``Reject all remaining tasks'': \<^verbatim>\<open>taskReadiness.get(taskId)?.reject(reason)\<close>.\<close>

fun reject_remaining :: "string list \<Rightarrow> readiness_map \<Rightarrow> error \<Rightarrow> readiness_map \<times> error option" where
  "reject_remaining [] readiness reason = (readiness, None)"
| "reject_remaining (taskId # rest) readiness reason =
     (case map_of readiness taskId of
        None \<Rightarrow> reject_remaining rest readiness reason
      | Some d \<Rightarrow>
         (case Deferred_reject d reason of
            Inl e \<Rightarrow> (readiness, Some e)
          | Inr d' \<Rightarrow> reject_remaining rest (AList.update taskId d' readiness) reason))"

text \<open>
  The part of \<^verbatim>\<open>resolve\<close> after the test for \<^verbatim>\<open>null\<close>, given the task id it read.
  \<^verbatim>\<open>updateDependencies\<close> is called with \<^verbatim>\<open>tasks.get(taskId)!\<close> and
  \<^verbatim>\<open>taskDescriptors.get(taskId)!\<close>; if either is \<^verbatim>\<open>undefined\<close> its first property
  access throws before it changes anything.
\<close>

definition resolve_with :: "ExecutableWorkflow \<Rightarrow> workflow_state \<Rightarrow> TaskResult deferred \<Rightarrow> string
                              \<Rightarrow> TaskResult \<Rightarrow> callback_result" where
  "resolve_with workflow st deferred taskId result =
     (let st1 = (if r_finish result
                 then st\<lparr>remainingTasks := Set_delete (remainingTasks st) taskId\<rparr> else st);
          upd = (if r_finish result then
                   (case (map_of (wf_tasks workflow) taskId, map_of (wf_taskDescriptors workflow) taskId) of
                      (Some task, Some descriptor) \<Rightarrow>
                        updateDependencies task descriptor (dependencyCount st1) (dependents st1)
                          (taskReadiness st1)
                    | _ \<Rightarrow> ((dependencyCount st1, taskReadiness st1),
                             Some (TypeError ''Cannot read properties of undefined'')))
                 else ((dependencyCount st1, taskReadiness st1), None));
          st2 = st1\<lparr>dependencyCount := fst (fst upd), taskReadiness := snd (fst upd)\<rparr>
      in case snd upd of
           Some e \<Rightarrow> \<lparr>cb_state = st2, cb_settlement = None, cb_thrown = Some e\<rparr>
         | None \<Rightarrow>
            (let st3 = (if r_finish result
                        then st2\<lparr>results := AList.update taskId (r_output result) (results st2)\<rparr>
                        else st2);
                 st4 = st3\<lparr>deferredMessage :=
                             (if remainingTasks st3 = [] then None else Some Unsettled)\<rparr>
             in case Deferred_resolve deferred result of
                  Inl e \<Rightarrow> \<lparr>cb_state = st4, cb_settlement = None, cb_thrown = Some e\<rparr>
                | Inr d \<Rightarrow> \<lparr>cb_state = st4, cb_settlement = Some d, cb_thrown = None\<rparr>))"

subsection \<open>The closures of the later revision\<close>

definition resolve :: "ExecutableWorkflow \<Rightarrow> workflow_state \<Rightarrow> TaskResult \<Rightarrow> callback_result" where
  "resolve workflow st result =
     (case deferredMessage st of
        None \<Rightarrow> \<lparr>cb_state = st, cb_settlement = None, cb_thrown = None\<rparr>
      | Some deferred \<Rightarrow> resolve_with workflow st deferred (r_taskId result) result)"

text \<open>\<^verbatim>\<open>reject\<close>: the loop over the remaining tasks is in a \<^verbatim>\<open>try\<close> whose \<^verbatim>\<open>finally\<close> rejects the deferred message.\<close>

definition reject :: "workflow_state \<Rightarrow> error \<Rightarrow> callback_result" where
  "reject st reason =
     (case deferredMessage st of
        None \<Rightarrow> \<lparr>cb_state = st, cb_settlement = None, cb_thrown = None\<rparr>
      | Some deferred \<Rightarrow>
         (let looped = reject_remaining (remainingTasks st) (taskReadiness st) reason;
              st1 = st\<lparr>deferredMessage := None, taskReadiness := fst looped\<rparr>
          in case Deferred_reject deferred reason of
               Inl e \<Rightarrow> \<lparr>cb_state = st1, cb_settlement = None, cb_thrown = Some e\<rparr>
             | Inr d \<Rightarrow> \<lparr>cb_state = st1, cb_settlement = Some d, cb_thrown = snd looped\<rparr>))"

text \<open>
  \<^verbatim>\<open>abort\<close>.  The class \<^verbatim>\<open>AbortError\<close> is imported from \<^verbatim>\<open>../errors\<close> but is not
  among the classes of \<^verbatim>\<open>src/errors.ts\<close>; it is kept as a constructor of
  \<^typ>\<open>error\<close> holding its arguments.
\<close>

definition abort :: "workflow_state \<Rightarrow> error \<Rightarrow> callback_result" where
  "abort st reason =
     (case deferredMessage st of
        None \<Rightarrow> \<lparr>cb_state = st, cb_settlement = None, cb_thrown = None\<rparr>
      | Some _ \<Rightarrow>
         (if aborted st then \<lparr>cb_state = st, cb_settlement = None, cb_thrown = None\<rparr>
          else reject (st\<lparr>aborted := True\<rparr>) (AbortError [reason] ''Workflow aborted'')))"

subsection \<open>The closures of \<^verbatim>\<open>src/main/api.ts\<close>\<close>

definition resolve_api :: "ExecutableWorkflow \<Rightarrow> workflow_state \<Rightarrow> TaskResult \<Rightarrow> callback_result" where
  "resolve_api workflow st result =
     (case deferredMessage st of
        None \<Rightarrow> \<lparr>cb_state = st, cb_settlement = None, cb_thrown = None\<rparr>
      | Some deferred \<Rightarrow> resolve_with workflow st deferred (r_id result) result)"

text \<open>Here the loop is not guarded: when it throws, the deferred message is left unsettled.\<close>

definition reject_api :: "workflow_state \<Rightarrow> error \<Rightarrow> callback_result" where
  "reject_api st reason =
     (let looped = reject_remaining (remainingTasks st) (taskReadiness st) reason;
          st1 = st\<lparr>deferredMessage := None, taskReadiness := fst looped\<rparr>
      in case snd looped of
           Some e \<Rightarrow> \<lparr>cb_state = st1, cb_settlement = None, cb_thrown = Some e\<rparr>
         | None \<Rightarrow>
            (case deferredMessage st of
               None \<Rightarrow> \<lparr>cb_state = st1, cb_settlement = None, cb_thrown = None\<rparr>
             | Some deferred \<Rightarrow>
                (case Deferred_reject deferred reason of
                   Inl e \<Rightarrow> \<lparr>cb_state = st1, cb_settlement = None, cb_thrown = Some e\<rparr>
                 | Inr d \<Rightarrow> \<lparr>cb_state = st1, cb_settlement = Some d, cb_thrown = None\<rparr>)))"

text \<open>\<^verbatim>\<open>abort\<close> rejects the remaining tasks itself and then calls \<^verbatim>\<open>reject\<close>, which rejects them again.\<close>

definition abort_api :: "workflow_state \<Rightarrow> error \<Rightarrow> callback_result" where
  "abort_api st reason =
     (case deferredMessage st of
        None \<Rightarrow> \<lparr>cb_state = st, cb_settlement = None, cb_thrown = None\<rparr>
      | Some _ \<Rightarrow>
         (if aborted st then \<lparr>cb_state = st, cb_settlement = None, cb_thrown = None\<rparr>
          else
            (let looped = reject_remaining (remainingTasks st) (taskReadiness st) reason;
                 st1 = st\<lparr>aborted := True, taskReadiness := fst looped\<rparr>
             in case snd looped of
                  Some e \<Rightarrow> \<lparr>cb_state = st1, cb_settlement = None, cb_thrown = Some e\<rparr>
                | None \<Rightarrow> reject_api st1 (AggregateError [reason] ''Workflow aborted''))))"

subsection \<open>The task fibres as environment\<close>

text \<open>
  The generator starts \<^verbatim>\<open>execute\<close> for every task and then only meets the fibres
  through the closures it handed them.  What a fibre does with a message of its
  runner is the body of \<^verbatim>\<open>execute\<close> (\<^verbatim>\<open>src/main/functions.ts\<close>): an error response
  goes to \<^verbatim>\<open>reject\<close>, any other message to \<^verbatim>\<open>resolve\<close>, and whatever these or the
  runner throw is caught and passed to \<^verbatim>\<open>reject\<close>; what that last call throws
  leaves the fibre.  The result is the new state and how the deferred message
  that was current got settled.
\<close>

datatype env_event = RunnerMessage TaskResult | RunnerThrows error

definition execute_event ::
  "(workflow_state \<Rightarrow> TaskResult \<Rightarrow> callback_result) \<Rightarrow> (workflow_state \<Rightarrow> error \<Rightarrow> callback_result)
     \<Rightarrow> workflow_state \<Rightarrow> env_event \<Rightarrow> workflow_state \<times> TaskResult deferred option" where
  "execute_event resolve_fn reject_fn st ev =
     (case ev of
        RunnerThrows e \<Rightarrow>
          (let c = reject_fn st e in (cb_state c, cb_settlement c))
      | RunnerMessage message \<Rightarrow>
          (let first = (if isErrorResponse message
                        then reject_fn st (ErrorResponse (r_error message))
                        else resolve_fn st message)
           in case cb_thrown first of
                None \<Rightarrow> (cb_state first, cb_settlement first)
              | Some e \<Rightarrow>
                 (let second = reject_fn (cb_state first) e
                  in (cb_state second,
                      case cb_settlement first of Some d \<Rightarrow> Some d | None \<Rightarrow> cb_settlement second))))"

subsection \<open>The loop and the final message\<close>

text \<open>
  How a run of the generator ends: it returns, it throws, or it stays suspended
  on a promise that nothing settles.
\<close>

datatype outcome = Returned | Threw error | Suspended

text \<open>
  \<^verbatim>\<open>signal?.aborted\<close> at the \<open>k\<close>-th pass through the loop head: \<open>None\<close> is no
  signal or one never aborted, \<open>Some j\<close> a signal aborted from pass \<open>j\<close> on.
\<close>

definition signal_aborted :: "nat option \<Rightarrow> nat \<Rightarrow> bool" where
  "signal_aborted signal k = (case signal of None \<Rightarrow> False | Some j \<Rightarrow> j \<le> k)"

text \<open>``Yield the results as a final message'', after which the generator returns.\<close>

definition final_message :: "workflow_state \<Rightarrow> WorkflowResult list \<times> outcome" where
  "final_message st = ([FinalWorkflowResult (resultsMapToObj (results st))], Returned)"

text \<open>
  \<^verbatim>\<open>abort(reason); break;\<close> followed by the statement after the loop.  A throw
  inside \<^verbatim>\<open>abort\<close> leaves the generator.
\<close>

definition abort_and_break :: "(workflow_state \<Rightarrow> error \<Rightarrow> callback_result) \<Rightarrow> workflow_state \<Rightarrow> error
                                 \<Rightarrow> WorkflowResult list \<times> outcome" where
  "abort_and_break abort_fn st reason =
     (let c = abort_fn st reason
      in case cb_thrown c of
           Some e \<Rightarrow> ([], Threw e)
         | None \<Rightarrow> final_message (cb_state c))"

text \<open>
  The \<^verbatim>\<open>while\<close> loop.  \<open>workflow_loop\<close> is the loop head; \<open>workflow_await\<close> is the
  generator suspended in \<^verbatim>\<open>await deferredMessage.promise\<close>.

  The events of the fibres come in turns, one list per suspension of the
  generator.  \<open>await_turn\<close> delivers the events of a turn until one of them
  settles the deferred message, which is the one the generator awaits: the
  closures replace \<^verbatim>\<open>deferredMessage\<close> in the same call that settles it.  The
  generator then goes on at once; on a message it reads \<^verbatim>\<open>results\<close> and yields.
  The events left in the turn (\<open>deliver_rest\<close>) arrive while it is suspended at
  the \<^verbatim>\<open>yield\<close>: they change the state, and what they settle is a deferred message
  that the generator never awaits, so a message among them is not yielded.  At
  the next pass the generator reads \<^verbatim>\<open>deferredMessage\<close> afresh.  A turn that
  settles nothing leaves the generator suspended for the next turn.

  The arguments are the three closures, the reason given to \<^verbatim>\<open>abort\<close> on an
  aborted signal, the signal, the number of passes so far, the turns to come and
  the state.
\<close>

fun await_turn ::
  "(workflow_state \<Rightarrow> TaskResult \<Rightarrow> callback_result) \<Rightarrow> (workflow_state \<Rightarrow> error \<Rightarrow> callback_result)
     \<Rightarrow> workflow_state \<Rightarrow> env_event list
     \<Rightarrow> workflow_state \<times> TaskResult deferred option \<times> env_event list" where
  "await_turn resolve_fn reject_fn st [] = (st, None, [])"
| "await_turn resolve_fn reject_fn st (ev # evs) =
     (case execute_event resolve_fn reject_fn st ev of
        (st', Some d) \<Rightarrow> (st', Some d, evs)
      | (st', None) \<Rightarrow> await_turn resolve_fn reject_fn st' evs)"

fun deliver_rest ::
  "(workflow_state \<Rightarrow> TaskResult \<Rightarrow> callback_result) \<Rightarrow> (workflow_state \<Rightarrow> error \<Rightarrow> callback_result)
     \<Rightarrow> workflow_state \<Rightarrow> env_event list \<Rightarrow> workflow_state" where
  "deliver_rest resolve_fn reject_fn st [] = st"
| "deliver_rest resolve_fn reject_fn st (ev # evs) =
     deliver_rest resolve_fn reject_fn (fst (execute_event resolve_fn reject_fn st ev)) evs"

fun workflow_loop ::
    "(workflow_state \<Rightarrow> TaskResult \<Rightarrow> callback_result) \<Rightarrow> (workflow_state \<Rightarrow> error \<Rightarrow> callback_result)
       \<Rightarrow> (workflow_state \<Rightarrow> error \<Rightarrow> callback_result) \<Rightarrow> error
       \<Rightarrow> nat option \<Rightarrow> nat \<Rightarrow> env_event list list \<Rightarrow> workflow_state
       \<Rightarrow> WorkflowResult list \<times> outcome"
  and workflow_await ::
    "(workflow_state \<Rightarrow> TaskResult \<Rightarrow> callback_result) \<Rightarrow> (workflow_state \<Rightarrow> error \<Rightarrow> callback_result)
       \<Rightarrow> (workflow_state \<Rightarrow> error \<Rightarrow> callback_result) \<Rightarrow> error
       \<Rightarrow> nat option \<Rightarrow> nat \<Rightarrow> env_event list list \<Rightarrow> workflow_state
       \<Rightarrow> WorkflowResult list \<times> outcome"
where
  "workflow_loop resolve_fn reject_fn abort_fn signal_reason signal k script st =
     (case deferredMessage st of
        None \<Rightarrow> final_message st
      | Some _ \<Rightarrow>
         (if signal_aborted signal k then abort_and_break abort_fn st signal_reason
          else workflow_await resolve_fn reject_fn abort_fn signal_reason signal k script st))"
| "workflow_await resolve_fn reject_fn abort_fn signal_reason signal k [] st = ([], Suspended)"
| "workflow_await resolve_fn reject_fn abort_fn signal_reason signal k (turn # script) st =
     (case await_turn resolve_fn reject_fn st turn of
        (st', Some (Resolved message), left) \<Rightarrow>
          (if isErrorResponse message
           then abort_and_break abort_fn st' (PlainError (r_error message))
           else
             (let rest = workflow_loop resolve_fn reject_fn abort_fn signal_reason signal (Suc k) script
                           (deliver_rest resolve_fn reject_fn st' left)
              in (IntermediateWorkflowResult (r_id message)
                    (case map_of (results st') (r_id message) of Some output \<Rightarrow> output | None \<Rightarrow> None)
                  # fst rest, snd rest)))
      | (st', Some (Rejected e), left) \<Rightarrow> ([], Threw e)
      | (st', _, left) \<Rightarrow>
          workflow_await resolve_fn reject_fn abort_fn signal_reason signal k script st')"

text \<open>
  The generator of the later revision, and that of \<^verbatim>\<open>src/main/api.ts\<close>: the
  messages yielded and how the run ends, for a workflow, a signal and the turns
  of events of the fibres.  An error thrown before the loop is the outcome of
  the first \<^verbatim>\<open>next()\<close>.
\<close>

definition executeWorkflow :: "ExecutableWorkflow \<Rightarrow> nat option \<Rightarrow> env_event list list
                                 \<Rightarrow> WorkflowResult list \<times> outcome" where
  "executeWorkflow workflow signal script =
     (case start_workflow workflow of
        Inl e \<Rightarrow> ([], Threw e)
      | Inr st \<Rightarrow>
          workflow_loop (resolve workflow) reject abort (PlainError ''Workflow aborted by signal'')
            signal 0 script st)"

definition executeWorkflow_api :: "ExecutableWorkflow \<Rightarrow> nat option \<Rightarrow> env_event list list
                                     \<Rightarrow> WorkflowResult list \<times> outcome" where
  "executeWorkflow_api workflow signal script =
     (case start_workflow workflow of
        Inl e \<Rightarrow> ([], Threw e)
      | Inr st \<Rightarrow>
          workflow_loop (resolve_api workflow) reject_api abort_api (AbortError [] ''Workflow aborted'')
            signal 0 script st)"

section \<open>\<^verbatim>\<open>RunnerPool\<close> (\<^verbatim>\<open>src/main/lib/RunnerPool.ts\<close>)\<close>

text \<open>
  A runner is a \<^verbatim>\<open>Worker\<close> object, a pending acquire a \<^verbatim>\<open>Deferred<Runner>\<close> object;
  both are told apart by identity, here a number.  The record holds the four
  private fields, \<^verbatim>\<open>#options\<close> as its two members.
\<close>

type_synonym runner = nat
type_synonym acquirer = nat

record RunnerPool =
  runners :: "runner list"
  idleRunners :: "runner list"
  pending :: "acquirer list"
  options_min :: int
  options_max :: int

text \<open>The getters \<^verbatim>\<open>size\<close>, \<^verbatim>\<open>idle\<close>, \<^verbatim>\<open>busy\<close>.\<close>

definition size_of :: "RunnerPool \<Rightarrow> int" where
  "size_of pool = int (length (runners pool))"

definition idle_of :: "RunnerPool \<Rightarrow> int" where
  "idle_of pool = int (length (idleRunners pool))"

definition busy_of :: "RunnerPool \<Rightarrow> int" where
  "busy_of pool = int (length (runners pool)) - int (length (idleRunners pool))"

text \<open>
  \<^verbatim>\<open>#terminateIdleRunners\<close>: every idle runner is terminated and taken out of
  \<^verbatim>\<open>#runners\<close>; the second component lists the runners terminated.
\<close>

definition terminateIdleRunners :: "RunnerPool \<Rightarrow> RunnerPool \<times> runner list" where
  "terminateIdleRunners pool =
     (pool\<lparr>runners := filter (\<lambda>runner. runner \<notin> set (idleRunners pool)) (runners pool),
            idleRunners := []\<rparr>,
      idleRunners pool)"

text \<open>
  The value assigned to \<^verbatim>\<open>min\<close> or \<^verbatim>\<open>max\<close>: an integer, or anything that fails
  \<^verbatim>\<open>typeof value === "number" && Number.isInteger(value)\<close>.
\<close>

datatype assigned = IntegerValue int | NotAnInteger

text \<open>
  What a setter did besides changing the fields: how often it called
  \<^verbatim>\<open>#createRunner(true)\<close> (the workers join the pool only when their ready message
  arrives, see \<open>createRunner_onMessage\<close>) and which runners it terminated.
\<close>

record setter_effects =
  created :: nat
  terminated :: "runner list"

definition set_min :: "RunnerPool \<Rightarrow> assigned \<Rightarrow> error + RunnerPool \<times> setter_effects" where
  "set_min pool v =
     (case v of
        NotAnInteger \<Rightarrow> Inl (TypeError ''The minimum number of runners must be an integer'')
      | IntegerValue value \<Rightarrow>
         (if value \<le> 0 then Inl (TypeError ''The minimum number of runners must be greater than 0'')
          else if value > options_max pool
          then Inl (TypeError ''The minimum number of runners cannot exceed the maximum number of runners'')
          else
            (let pool1 = pool\<lparr>options_min := value\<rparr>;
                 n = nat (options_min pool1 - int (length (runners pool1)))
             in if int (length (runners pool1)) > options_min pool1
                then (case terminateIdleRunners pool1 of
                        (pool2, gone) \<Rightarrow> Inr (pool2, \<lparr>created = n, terminated = gone\<rparr>))
                else Inr (pool1, \<lparr>created = n, terminated = []\<rparr>))))"

definition set_max :: "RunnerPool \<Rightarrow> assigned \<Rightarrow> error + RunnerPool \<times> setter_effects" where
  "set_max pool v =
     (case v of
        NotAnInteger \<Rightarrow> Inl (TypeError ''The maximum number of runners must be an integer'')
      | IntegerValue value \<Rightarrow>
         (if value \<le> 0 then Inl (TypeError ''The maximum number of runners must be greater than 0'')
          else if value < options_min pool
          then Inl (TypeError ''The maximum number of runners cannot be less than the minimum number of runners'')
          else
            (let pool1 = pool\<lparr>options_max := value\<rparr>
             in if int (length (runners pool1)) > options_max pool1
                then (case terminateIdleRunners pool1 of
                        (pool2, gone) \<Rightarrow> Inr (pool2, \<lparr>created = 0, terminated = gone\<rparr>))
                else Inr (pool1, \<lparr>created = 0, terminated = []\<rparr>))))"

text \<open>The invariant the specification states for the pool.\<close>

definition pool_invariant :: "RunnerPool \<Rightarrow> bool" where
  "pool_invariant pool =
     (0 < options_min pool \<and> options_min pool \<le> size_of pool \<and> size_of pool \<le> options_max pool)"

text \<open>
  \<^verbatim>\<open>#createRunner(idle)\<close> constructs a worker and returns a promise; the pool is
  changed only by the handler of the worker's first message.  The value stands
  for the creation under way and holds the argument \<^verbatim>\<open>idle\<close>, which the handler
  reads when the message comes.
\<close>

datatype creation = Creation (for_idle: bool)

definition createRunner :: "bool \<Rightarrow> creation" where
  "createRunner idle = Creation idle"

text \<open>
  The message handler of a creation for the worker it constructed, in the pool
  as it is when the message arrives: on a ready message the worker joins
  \<^verbatim>\<open>#runners\<close> (and \<^verbatim>\<open>#idleRunners\<close> if \<^verbatim>\<open>idle\<close>) and the promise resolves with it; on
  any other message the worker is terminated and the promise rejects.
\<close>

definition createRunner_onMessage :: "RunnerPool \<Rightarrow> creation \<Rightarrow> runner \<Rightarrow> bool
                                        \<Rightarrow> (error + runner) \<times> RunnerPool" where
  "createRunner_onMessage pool c runner isReadyMessage =
     (if isReadyMessage
      then (Inr runner,
            pool\<lparr>runners := runners pool @ [runner],
                 idleRunners := (if for_idle c then idleRunners pool @ [runner] else idleRunners pool)\<rparr>)
      else (Inl (PlainError ''The runner failed to initialize''), pool))"

text \<open>
  \<^verbatim>\<open>acquire\<close>: the caller gets the first idle runner at once, or the promise of
  \<^verbatim>\<open>this.#createRunner(false)\<close>, or the promise of a deferred pushed on \<^verbatim>\<open>#pending\<close>.
\<close>

datatype acquired = Runner runner | NewRunner creation | Queued

definition acquire :: "RunnerPool \<Rightarrow> acquirer \<Rightarrow> acquired \<times> RunnerPool" where
  "acquire pool caller =
     (case idleRunners pool of
        runner # rest \<Rightarrow> (Runner runner, pool\<lparr>idleRunners := rest\<rparr>)
      | [] \<Rightarrow>
         (if int (length (runners pool)) < options_max pool then (NewRunner (createRunner False), pool)
          else (Queued, pool\<lparr>pending := pending pool @ [caller]\<rparr>)))"

text \<open>
  \<^verbatim>\<open>#dispatchPending\<close>: with a pending acquire and an idle runner, the first of
  each is taken and the deferred resolved with the runner (second component).
\<close>

definition dispatchPending :: "RunnerPool \<Rightarrow> RunnerPool \<times> (acquirer \<times> runner) option" where
  "dispatchPending pool =
     (if min (length (pending pool)) (length (idleRunners pool)) > 0
      then (case (pending pool, idleRunners pool) of
              (deferred # ps, runner # rs) \<Rightarrow>
                (pool\<lparr>pending := ps, idleRunners := rs\<rparr>, Some (deferred, runner))
            | _ \<Rightarrow> (pool, None))
      else (pool, None))"

definition release :: "RunnerPool \<Rightarrow> runner \<Rightarrow> error + RunnerPool \<times> (acquirer \<times> runner) option" where
  "release pool runner =
     (if runner \<in> set (runners pool)
      then Inr (dispatchPending (pool\<lparr>idleRunners := idleRunners pool @ [runner]\<rparr>))
      else Inl NotPartOfPool)"

text \<open>Releases one after the other, with the acquires they served, in order.\<close>

fun release_all :: "RunnerPool \<Rightarrow> runner list \<Rightarrow> error + RunnerPool \<times> (acquirer \<times> runner) list" where
  "release_all pool [] = Inr (pool, [])"
| "release_all pool (runner # rest) =
     (case release pool runner of
        Inl e \<Rightarrow> Inl e
      | Inr (pool', served) \<Rightarrow>
         (case release_all pool' rest of
            Inl e \<Rightarrow> Inl e
          | Inr (pool'', later) \<Rightarrow>
              Inr (pool'', (case served of None \<Rightarrow> later | Some s \<Rightarrow> s # later))))"

section \<open>Properties\<close>

subsection \<open>Buffer-type tags\<close>

lemma dvd8: "8 dvd (n::nat) \<Longrightarrow> n mod 8 = 0 \<and> n mod 4 = 0 \<and> n mod 2 = 0"
  by presburger

lemma not_dvd8: "(n::nat) mod 8 \<noteq> 0 \<or> n mod 4 \<noteq> 0 \<or> n mod 2 \<noteq> 0 \<Longrightarrow> \<not> 8 dvd n"
  by presburger

lemma fromSharedArrayBuffer_tags:
  "\<forall>t \<in> set bufferTypeTags.
     (case fromSharedArrayBuffer t buffer of
           Inr a \<Rightarrow> getBufferType a = Inr t
         | Inl e \<Rightarrow> e = RangeError \<and> \<not> 8 dvd byteLength buffer)"
  unfolding bufferTypeTags_def
  by (simp add: fromSharedArrayBuffer_def new_typed_array_def getBufferType_def not_dvd8)

lemma kinds_hit:
  assumes "8 dvd byteLength b"
  shows "\<exists>t \<in> set bufferTypeTags. fromSharedArrayBuffer t b = Inr (TypedArray k b)"
proof -
  have d: "byteLength b mod 8 = 0 \<and> byteLength b mod 4 = 0 \<and> byteLength b mod 2 = 0"
    using assms by presburger
  show ?thesis
    by (cases k) (simp_all add: bufferTypeTags_def fromSharedArrayBuffer_def new_typed_array_def d)
qed

lemma inj_tags:
  "inj_on (\<lambda>t. fromSharedArrayBuffer t b) (set bufferTypeTags)" if "8 dvd byteLength b"
proof (rule inj_onI)
  fix t t' assume a: "t \<in> set bufferTypeTags" "t' \<in> set bufferTypeTags"
    "fromSharedArrayBuffer t b = fromSharedArrayBuffer t' b"
  have 1: "case fromSharedArrayBuffer t b of Inr a \<Rightarrow> getBufferType a = Inr t
     | Inl e \<Rightarrow> e = RangeError \<and> \<not> 8 dvd byteLength b"
    using fromSharedArrayBuffer_tags a(1) by blast
  have 2: "case fromSharedArrayBuffer t' b of Inr a \<Rightarrow> getBufferType a = Inr t'
     | Inl e \<Rightarrow> e = RangeError \<and> \<not> 8 dvd byteLength b"
    using fromSharedArrayBuffer_tags a(2) by blast
  from 1 2 a(3) that show "t = t'"
    by (cases "fromSharedArrayBuffer t' b") auto
qed

text \<open>
  Claim C9.  For each of the eleven enumerated tags, \<^verbatim>\<open>fromSharedArrayBuffer\<close> either
  builds a typed array whose tag read back by \<^verbatim>\<open>getBufferType\<close> is the tag given, or
  the typed-array constructor refuses the buffer for its byte length (which never
  happens when the length is a multiple of 8).  On such a buffer the tags
  correspond one-to-one to the eleven typed-array kinds; the tags are pairwise
  distinct.
\<close>

theorem buffer_type_roundtrip:
  "(\<forall>t \<in> set bufferTypeTags. \<forall>buffer.
      (case fromSharedArrayBuffer t buffer of
         Inr a \<Rightarrow> getBufferType a = Inr t
       | Inl e \<Rightarrow> e = RangeError \<and> \<not> 8 dvd byteLength buffer))
   \<and> (\<forall>buffer. 8 dvd byteLength buffer \<longrightarrow>
        bij_betw (\<lambda>t. fromSharedArrayBuffer t buffer) (set bufferTypeTags)
          (range (\<lambda>k. Inr (TypedArray k buffer))))
   \<and> distinct bufferTypeTags \<and> length bufferTypeTags = 11"
proof (intro conjI allI impI)
  show "\<forall>t \<in> set bufferTypeTags. \<forall>buffer.
      (case fromSharedArrayBuffer t buffer of
         Inr a \<Rightarrow> getBufferType a = Inr t
       | Inl e \<Rightarrow> e = RangeError \<and> \<not> 8 dvd byteLength buffer)"
    using fromSharedArrayBuffer_tags by blast
next
  fix buffer assume d: "8 dvd byteLength buffer"
  have img: "(\<lambda>t. fromSharedArrayBuffer t buffer) ` set bufferTypeTags
      = range (\<lambda>k. Inr (TypedArray k buffer))"
  proof (intro equalityI subsetI)
    fix x :: "error + js_object" assume "x \<in> (\<lambda>t. fromSharedArrayBuffer t buffer) ` set bufferTypeTags"
    then show "x \<in> range (\<lambda>k. Inr (TypedArray k buffer))"
      unfolding bufferTypeTags_def
      using dvd8[OF d] by (auto simp: fromSharedArrayBuffer_def new_typed_array_def)
  next
    fix x :: "error + js_object" assume "x \<in> range (\<lambda>k. Inr (TypedArray k buffer))"
    then show "x \<in> (\<lambda>t. fromSharedArrayBuffer t buffer) ` set bufferTypeTags"
      using kinds_hit[OF d] by (metis (mono_tags) imageE imageI)
  qed
  show "bij_betw (\<lambda>t. fromSharedArrayBuffer t buffer) (set bufferTypeTags)
          (range (\<lambda>k. Inr (TypedArray k buffer)))"
    unfolding bij_betw_def using inj_tags[OF d] img by blast
next
  show "distinct bufferTypeTags" by (simp add: bufferTypeTags_def)
  show "length bufferTypeTags = 11" by (simp add: bufferTypeTags_def)
qed

text \<open>The round trip and the bijection at the tag \<^verbatim>\<open>uint8_clamped\<close> and a 16-byte buffer.\<close>

theorem buffer_type_roundtrip_witness:
  "''uint8_clamped'' \<in> set bufferTypeTags
   \<and> fromSharedArrayBuffer ''uint8_clamped'' (SharedArrayBuffer 16)
       = Inr (TypedArray Uint8ClampedArray (SharedArrayBuffer 16))
   \<and> getBufferType (TypedArray Uint8ClampedArray (SharedArrayBuffer 16)) = Inr ''uint8_clamped''
   \<and> 8 dvd byteLength (SharedArrayBuffer 16)
   \<and> bij_betw (\<lambda>t. fromSharedArrayBuffer t (SharedArrayBuffer 16)) (set bufferTypeTags)
          (range (\<lambda>k. Inr (TypedArray k (SharedArrayBuffer 16))))"
proof -
  have m: "''uint8_clamped'' \<in> set bufferTypeTags" by (simp add: bufferTypeTags_def)
  have e: "fromSharedArrayBuffer ''uint8_clamped'' (SharedArrayBuffer 16)
       = Inr (TypedArray Uint8ClampedArray (SharedArrayBuffer 16))"
    by (simp add: fromSharedArrayBuffer_def new_typed_array_def)
  have d: "8 dvd byteLength (SharedArrayBuffer 16)" by simp
  from buffer_type_roundtrip m have
    "case fromSharedArrayBuffer ''uint8_clamped'' (SharedArrayBuffer 16) of
         Inr a \<Rightarrow> getBufferType a = Inr ''uint8_clamped''
       | Inl e \<Rightarrow> e = RangeError \<and> \<not> 8 dvd byteLength (SharedArrayBuffer 16)"
    by blast
  with e have g: "getBufferType (TypedArray Uint8ClampedArray (SharedArrayBuffer 16)) = Inr ''uint8_clamped''"
    by simp
  from buffer_type_roundtrip d have
    "bij_betw (\<lambda>t. fromSharedArrayBuffer t (SharedArrayBuffer 16)) (set bufferTypeTags)
          (range (\<lambda>k. Inr (TypedArray k (SharedArrayBuffer 16))))"
    by blast
  with m e g d show ?thesis by blast
qed

subsection \<open>\<^verbatim>\<open>DependencyCounter.decrement\<close>\<close>

text \<open>The second copy of the class decrements once: it fails on a missing or
  non-positive count and otherwise stores and returns the count less one.\<close>

lemma DependencyCounter_decrement_absent:
  "map_of cs taskId = None \<Longrightarrow> DependencyCounter_decrement cs taskId = Inl (CountAlreadyZero taskId)"
  by (simp add: DependencyCounter_decrement_def)

lemma DependencyCounter_decrement_zero:
  "map_of cs taskId = Some c \<Longrightarrow> c \<le> 0
     \<Longrightarrow> DependencyCounter_decrement cs taskId = Inl (CountAlreadyZero taskId)"
  by (simp add: DependencyCounter_decrement_def)

lemma DependencyCounter_decrement_positive:
  assumes "map_of cs taskId = Some c" "0 < c"
  shows "DependencyCounter_decrement cs taskId = Inr (c - 1, AList.update taskId (c - 1) cs)"
    and "DependencyCounter_get (AList.update taskId (c - 1) cs) taskId = Some (c - 1)"
  using assms by (simp_all add: DependencyCounter_decrement_def DependencyCounter_get_def Let_def update_conv')

text \<open>
  Claim C5, at the input where the first copy of the class departs from it.  With
  the stored count 1, \<^verbatim>\<open>decrement\<close> returns 0 but stores \<^verbatim>\<open>newCount - 1\<close>, so the
  next \<^verbatim>\<open>get\<close> returns -1 and not the 0 just returned; the second copy stores 0.
\<close>

theorem DependencyCounter1_decrement_stores_twice:
  "DependencyCounter1_decrement [(''a'', 1)] ''a'' = Inr (0, [(''a'', -1)])
   \<and> DependencyCounter1_get [(''a'', -1)] ''a'' = -1
   \<and> DependencyCounter_decrement [(''a'', 1)] ''a'' = Inr (0, [(''a'', 0)])
   \<and> DependencyCounter_get [(''a'', 0)] ''a'' = Some 0"
  by (simp add: DependencyCounter1_decrement_def DependencyCounter1_get_def
      DependencyCounter_decrement_def DependencyCounter_get_def)

subsection \<open>Graph validation\<close>

text \<open>
  Claim C1, at an input where the code departs from it.  The two tasks are those
  of the repository's own example workflow (\<^verbatim>\<open>a\<close> without dependencies, \<^verbatim>\<open>b\<close>
  depending on \<^verbatim>\<open>a\<close>): ids distinct, every reference resolved, no cycle.  The
  marks in \<^verbatim>\<open>visited\<close> are never cleared, so the second arrival at \<^verbatim>\<open>a\<close> is
  reported as a cycle, in either input order.
\<close>

theorem validateTaskGraph_rejects_acyclic:
  "validateTaskGraph
     [\<lparr>td_id = ''a'', td_type = ''task1'', td_dependencies = None, td_config = None\<rparr>,
      \<lparr>td_id = ''b'', td_type = ''task2'',
        td_dependencies = Some [(''a'', Single ''a''), (''b'', Group [Str ''a''])],
        td_config = Some [(''key'', ''value'')]\<rparr>]
     = Some (Inl (CyclicDependencyError ''a'' [''b'', ''a'']))
   \<and> validateTaskGraph
     [\<lparr>td_id = ''b'', td_type = ''task2'',
        td_dependencies = Some [(''a'', Single ''a'')], td_config = None\<rparr>,
      \<lparr>td_id = ''a'', td_type = ''task1'', td_dependencies = None, td_config = None\<rparr>]
     = Some (Inl (CyclicDependencyError ''a'' [''a'']))"
  by (simp add: validateTaskGraph_def taskMap_truthy_def visited_truthy_def
      Object_prototype_keys_def new_CyclicDependencyError_def)

text \<open>
  The maps \<^verbatim>\<open>taskMap\<close> and \<^verbatim>\<open>visited\<close> are plain objects, so a single task whose id is
  the name of a member of \<^verbatim>\<open>Object.prototype\<close> is refused as a duplicate.
\<close>

lemma validateTaskGraph_prototype_id:
  "validateTaskGraph
     [\<lparr>td_id = ''constructor'', td_type = ''task1'', td_dependencies = None, td_config = None\<rparr>]
     = Some (Inl (DuplicateTaskError ''constructor''))"
  by (simp add: validateTaskGraph_def taskMap_truthy_def Object_prototype_keys_def)

text \<open>Validation does not see the references it skips.\<close>

lemma taskMap_truthy_strip [simp]:
  "taskMap_truthy (\<lambda>a. map_option strip_task (m a)) d = taskMap_truthy m d"
  by (simp add: taskMap_truthy_def split: option.splits)

lemma strip_deps_Nil [simp]: "strip_deps [] = []"
  by (simp add: strip_deps_def)

lemma strip_deps_Cons [simp]:
  "strip_deps ((key, dep) # rest) =
     (if truthy dep then (key, strip_value dep) # strip_deps rest else strip_deps rest)"
  by (simp add: strip_deps_def)

lemma truthy_strip_value [simp]: "truthy (strip_value dep) = truthy dep"
  by (cases dep) simp_all

lemma td_dependencies_strip_task [simp]:
  "td_dependencies (strip_task task) = map_option strip_deps (td_dependencies task)"
  by (simp add: strip_task_def)

lemma td_id_strip_task [simp]: "td_id (strip_task task) = td_id task"
  by (simp add: strip_task_def)

lemma visit_strip:
  "visit n (\<lambda>a. map_option strip_task (m a)) tid s = visit n m tid s"
  "visit_keys n (\<lambda>a. map_option strip_task (m a)) (strip_deps deps) s = visit_keys n m deps s"
  "visit_group n (\<lambda>a. map_option strip_task (m a)) (filter is_Str ds) s = visit_group n m ds s"
proof (induction n m tid s and n m deps s and n m ds s rule: visit_visit_keys_visit_group.induct)
  case (1 taskMap tid s)
  show ?case by simp
next
  case (2 n taskMap tid s)
  then show ?case
    by (auto simp: Let_def split: option.splits sum.splits)
next
  case (3 n taskMap s)
  show ?case by simp
next
  case (4 n taskMap key dep rest s)
  then show ?case
    by (cases dep) (auto split: option.splits sum.splits)
next
  case (5 n taskMap s)
  show ?case by simp
next
  case (6 n taskMap rest s)
  then show ?case by simp
next
  case (7 n taskMap d rest s)
  then show ?case by (auto split: option.splits sum.splits)
qed

lemma fill_taskMap_strip:
  "fill_taskMap (\<lambda>a. map_option strip_task (m a)) (map strip_task tasks)
     = (case fill_taskMap m tasks of Inl e \<Rightarrow> Inl e | Inr m' \<Rightarrow> Inr (\<lambda>a. map_option strip_task (m' a)))"
proof (induction tasks arbitrary: m)
  case Nil
  show ?case by simp
next
  case (Cons task tasks)
  show ?case
  proof (cases "taskMap_truthy m (td_id task)")
    case True
    then show ?thesis by simp
  next
    case False
    have upd: "(\<lambda>a. map_option strip_task (m a))(td_id task \<mapsto> strip_task task)
                 = (\<lambda>a. map_option strip_task ((m(td_id task \<mapsto> task)) a))"
      by (rule ext) simp
    have "fill_taskMap (\<lambda>a. map_option strip_task (m a)) (map strip_task (task # tasks))
            = fill_taskMap ((\<lambda>a. map_option strip_task (m a))(td_id task \<mapsto> strip_task task))
                (map strip_task tasks)"
      using False by simp
    also have "\<dots> = fill_taskMap (\<lambda>a. map_option strip_task ((m(td_id task \<mapsto> task)) a))
                (map strip_task tasks)"
      by (simp only: upd)
    also have "\<dots> = (case fill_taskMap (m(td_id task \<mapsto> task)) tasks of
                         Inl e \<Rightarrow> Inl e | Inr m' \<Rightarrow> Inr (\<lambda>a. map_option strip_task (m' a)))"
      by (rule Cons.IH)
    also have "\<dots> = (case fill_taskMap m (task # tasks) of
                         Inl e \<Rightarrow> Inl e | Inr m' \<Rightarrow> Inr (\<lambda>a. map_option strip_task (m' a)))"
      using False by simp
    finally show ?thesis .
  qed
qed

lemma visit_all_strip:
  "visit_all n (\<lambda>a. map_option strip_task (m a)) (map strip_task tasks) s = visit_all n m tasks s"
  by (induction tasks arbitrary: s) (auto simp: visit_strip split: option.splits sum.splits)

lemma validateTaskGraph_strip:
  "validateTaskGraph (map strip_task tasks) = validateTaskGraph tasks"
proof -
  have e: "(\<lambda>a. map_option strip_task (Map.empty a)) = Map.empty" by simp
  show ?thesis
    using fill_taskMap_strip[of Map.empty tasks]
    by (simp add: validateTaskGraph_def e visit_all_strip split: sum.splits)
qed

text \<open>
  The depth bound is never hit: a call of \<^verbatim>\<open>visit\<close> that goes on marks an id of
  \<^verbatim>\<open>taskMap\<close> that was not marked, and marks are never removed.
\<close>

lemma card_less_mono:
  assumes "finite D" "V \<subseteq> V'" "card (D - V) < n"
  shows "card (D - V') < n"
proof -
  have "D - V' \<subseteq> D - V" using assms(2) by blast
  then have "card (D - V') \<le> card (D - V)" using assms(1) by (simp add: card_mono)
  with assms(3) show ?thesis by simp
qed

lemma card_less_insert:
  assumes "finite D" "x \<in> D" "x \<notin> V" "card (D - V) < Suc n"
  shows "card (D - insert x V) < n"
proof -
  have "D - insert x V = (D - V) - {x}" by blast
  moreover have "x \<in> D - V" using assms by simp
  ultimately have "card (D - insert x V) = card (D - V) - 1" using assms(1) by simp
  moreover have "card (D - V) > 0" using \<open>x \<in> D - V\<close> assms(1) by (auto simp: card_gt_0_iff)
  ultimately show ?thesis using assms(4) by simp
qed

lemma visit_returns:
  "finite (dom m) \<Longrightarrow> card (dom m - visited s) < n
     \<Longrightarrow> \<exists>r. visit n m tid s = Some r \<and> (\<forall>s'. r = Inr s' \<longrightarrow> visited s \<subseteq> visited s')"
  "finite (dom m) \<Longrightarrow> card (dom m - visited s) < n
     \<Longrightarrow> \<exists>r. visit_keys n m deps s = Some r \<and> (\<forall>s'. r = Inr s' \<longrightarrow> visited s \<subseteq> visited s')"
  "finite (dom m) \<Longrightarrow> card (dom m - visited s) < n
     \<Longrightarrow> \<exists>r. visit_group n m ds s = Some r \<and> (\<forall>s'. r = Inr s' \<longrightarrow> visited s \<subseteq> visited s')"
proof (induction n m tid s and n m deps s and n m ds s rule: visit_visit_keys_visit_group.induct)
  case (1 taskMap tid s)
  then show ?case by simp
next
  case (2 n taskMap tid s)
  show ?case
  proof (cases "visited_truthy (visited s) tid")
    case True
    then show ?thesis by simp
  next
    case False
    then have nv: "tid \<notin> visited s" by (simp add: visited_truthy_def)
    define s1 where "s1 = s\<lparr>visited := insert tid (visited s), stack := stack s @ [tid]\<rparr>"
    show ?thesis
    proof (cases "taskMap tid")
      case None
      with False show ?thesis by simp
    next
      case (Some task)
      show ?thesis
      proof (cases "td_dependencies task")
        case None
        with False Some show ?thesis by auto
      next
        case (Some deps)
        have "tid \<in> dom taskMap" using \<open>taskMap tid = Some task\<close> by blast
        then have c: "card (dom taskMap - visited s1) < n"
          using card_less_insert[OF "2.prems"(1) _ nv "2.prems"(2)] by (simp add: s1_def)
        from "2.IH"[OF False s1_def[symmetric, THEN eq_reflection, THEN meta_eq_to_obj_eq, symmetric] \<open>taskMap tid = Some task\<close> Some "2.prems"(1) c]
        obtain r where r: "visit_keys n taskMap deps s1 = Some r"
          "\<forall>s'. r = Inr s' \<longrightarrow> visited s1 \<subseteq> visited s'" by blast
        show ?thesis
          using False \<open>taskMap tid = Some task\<close> Some r
          by (cases r) (auto simp: s1_def Let_def)
      qed
    qed
  qed
next
  case (3 n taskMap s)
  show ?case by simp
next
  case (4 n taskMap key dep rest s)
  show ?case
  proof (cases "truthy dep")
    case False
    then show ?thesis using 4 by simp
  next
    case True
    show ?thesis
    proof (cases dep)
      case Nullish
      with True show ?thesis by simp
    next
      case (Group ds)
      from "4.IH"(3)[OF True Group "4.prems"] obtain r where
        r: "visit_group n taskMap ds s = Some r" "\<forall>s'. r = Inr s' \<longrightarrow> visited s \<subseteq> visited s'"
        by blast
      show ?thesis
      proof (cases r)
        case (Inl e)
        with r True Group show ?thesis by simp
      next
        case (Inr s')
        with r have sub: "visited s \<subseteq> visited s'" by blast
        have c: "card (dom taskMap - visited s') < n"
          using card_less_mono[OF "4.prems"(1) sub "4.prems"(2)] .
        from "4.IH"(4)[OF True Group _ _ "4.prems"(1) c] r Inr
        obtain r' where "visit_keys n taskMap rest s' = Some r'"
          "\<forall>s''. r' = Inr s'' \<longrightarrow> visited s' \<subseteq> visited s''" by blast
        with r Inr True Group sub show ?thesis by auto
      qed
    next
      case (Single d)
      show ?thesis
      proof (cases "taskMap_truthy taskMap d")
        case False
        with True Single show ?thesis by simp
      next
        case tt: True
        from "4.IH"(1)[OF True Single tt "4.prems"] obtain r where
          r: "visit n taskMap d s = Some r" "\<forall>s'. r = Inr s' \<longrightarrow> visited s \<subseteq> visited s'"
          by blast
        show ?thesis
        proof (cases r)
          case (Inl e)
          with r True Single tt show ?thesis by simp
        next
          case (Inr s')
          with r have sub: "visited s \<subseteq> visited s'" by blast
          have c: "card (dom taskMap - visited s') < n"
            using card_less_mono[OF "4.prems"(1) sub "4.prems"(2)] .
          from "4.IH"(2)[OF True Single tt _ _ "4.prems"(1) c] r Inr
          obtain r' where "visit_keys n taskMap rest s' = Some r'"
            "\<forall>s''. r' = Inr s'' \<longrightarrow> visited s' \<subseteq> visited s''" by blast
          with r Inr True Single tt sub show ?thesis by auto
        qed
      qed
    qed
  qed
next
  case (5 n taskMap s)
  show ?case by simp
next
  case (6 n taskMap rest s)
  then show ?case by simp
next
  case (7 n taskMap d rest s)
  show ?case
  proof (cases "taskMap_truthy taskMap d")
    case False
    then show ?thesis by simp
  next
    case tt: True
    from "7.IH"(1)[OF tt "7.prems"] obtain r where
      r: "visit n taskMap d s = Some r" "\<forall>s'. r = Inr s' \<longrightarrow> visited s \<subseteq> visited s'"
      by blast
    show ?thesis
    proof (cases r)
      case (Inl e)
      with r tt show ?thesis by simp
    next
      case (Inr s')
      with r have sub: "visited s \<subseteq> visited s'" by blast
      have c: "card (dom taskMap - visited s') < n"
        using card_less_mono[OF "7.prems"(1) sub "7.prems"(2)] .
      from "7.IH"(2)[OF tt _ _ "7.prems"(1) c] r Inr
      obtain r' where "visit_group n taskMap rest s' = Some r'"
        "\<forall>s''. r' = Inr s'' \<longrightarrow> visited s' \<subseteq> visited s''" by blast
      with r Inr tt sub show ?thesis by auto
    qed
  qed
qed

lemma fill_taskMap_dom:
  "fill_taskMap m0 tasks = Inr m \<Longrightarrow> dom m = dom m0 \<union> td_id ` set tasks"
proof (induction tasks arbitrary: m0)
  case Nil
  then show ?case by simp
next
  case (Cons task tasks)
  from Cons.prems have "fill_taskMap (m0(td_id task \<mapsto> task)) tasks = Inr m"
    by (simp split: if_splits)
  from Cons.IH[OF this] show ?case by auto
qed

lemma visit_all_returns:
  "finite (dom m) \<Longrightarrow> card (dom m - visited s) < n \<Longrightarrow> \<exists>r. visit_all n m tasks s = Some r"
proof (induction tasks arbitrary: s)
  case Nil
  show ?case by simp
next
  case (Cons task tasks)
  from visit_returns(1)[OF Cons.prems] obtain r where
    r: "visit n m (td_id task) s = Some r" "\<forall>s'. r = Inr s' \<longrightarrow> visited s \<subseteq> visited s'"
    by blast
  show ?case
  proof (cases r)
    case (Inl e)
    with r show ?thesis by simp
  next
    case (Inr s')
    with r have "visited s \<subseteq> visited s'" by blast
    from card_less_mono[OF Cons.prems(1) this Cons.prems(2)]
    have "\<exists>r. visit_all n m tasks s' = Some r" by (rule Cons.IH[OF Cons.prems(1)])
    with r Inr show ?thesis by simp
  qed
qed

text \<open>\<^verbatim>\<open>validateTaskGraph\<close> terminates on every input: it returns or throws.\<close>

lemma validateTaskGraph_returns: "\<exists>r. validateTaskGraph tasks = Some r"
proof (cases "fill_taskMap Map.empty tasks")
  case (Inl e)
  then show ?thesis by (simp add: validateTaskGraph_def)
next
  case (Inr m)
  from fill_taskMap_dom[OF Inr] have d: "dom m = td_id ` set tasks" by simp
  then have f: "finite (dom m)" by simp
  have "card (dom m) \<le> card (set tasks)" unfolding d by (rule card_image_le) simp
  also have "\<dots> \<le> length tasks" by (rule card_length)
  finally have "card (dom m - visited \<lparr>visited = {}, stack = []\<rparr>) < Suc (length tasks)" by simp
  from visit_all_returns[OF f this] obtain r where
    "visit_all (Suc (length tasks)) m tasks \<lparr>visited = {}, stack = []\<rparr> = Some r" by blast
  with Inr show ?thesis by (cases r) (simp_all add: validateTaskGraph_def)
qed

text \<open>
  A call of \<^verbatim>\<open>visit\<close> that returns has marked its task and every reference it
  followed, none of which was marked before.
\<close>

lemma visit_followed:
  "visit n m tid s = Some (Inr s') \<Longrightarrow>
     visited s \<subseteq> visited s' \<and> tid \<notin> visited s \<and> tid \<in> visited s' \<and> tid \<in> dom m
     \<and> (\<forall>t. m tid = Some t \<longrightarrow>
           (\<forall>d \<in> set (followed_references t).
              d \<in> dom m \<and> d \<notin> visited s \<and> d \<noteq> tid \<and> d \<in> visited s'))"
  "visit_keys n m deps s = Some (Inr s') \<Longrightarrow>
     visited s \<subseteq> visited s'
     \<and> (\<forall>d \<in> set (followed_of_keys deps). d \<in> dom m \<and> d \<notin> visited s \<and> d \<in> visited s')"
  "visit_group n m ds s = Some (Inr s') \<Longrightarrow>
     visited s \<subseteq> visited s'
     \<and> (\<forall>d \<in> set (followed_of_group ds). d \<in> dom m \<and> d \<notin> visited s \<and> d \<in> visited s')"
proof (induction n m tid s and n m deps s and n m ds s
    arbitrary: s' and s' and s' rule: visit_visit_keys_visit_group.induct)
  case (1 taskMap tid s)
  then show ?case by simp
next
  case (2 n taskMap tid s)
  from "2.prems" have nv: "\<not> visited_truthy (visited s) tid" by (auto split: if_splits)
  then have nvs: "tid \<notin> visited s" by (simp add: visited_truthy_def)
  define s1 where "s1 = s\<lparr>visited := insert tid (visited s), stack := stack s @ [tid]\<rparr>"
  from "2.prems" nv obtain task where task: "taskMap tid = Some task"
    by (auto simp: Let_def split: option.splits)
  show ?case
  proof (cases "td_dependencies task")
    case None
    with "2.prems" nv task have "visited s' = insert tid (visited s)"
      by (auto simp: Let_def)
    with None task nvs show ?thesis by (auto simp: followed_references_def)
  next
    case (Some deps)
    with "2.prems" nv task obtain s2 where
      k: "visit_keys n taskMap deps s1 = Some (Inr s2)" and
      s': "s' = s2\<lparr>stack := butlast (stack s2)\<rparr>"
      by (auto simp: s1_def Let_def split: option.splits sum.splits)
    from "2.IH"[OF nv s1_def[symmetric, THEN eq_reflection, THEN meta_eq_to_obj_eq, symmetric] task Some k]
    have ih: "visited s1 \<subseteq> visited s2"
      "\<forall>d \<in> set (followed_of_keys deps). d \<in> dom taskMap \<and> d \<notin> visited s1 \<and> d \<in> visited s2"
      by simp_all
    from ih s' task Some nvs show ?thesis
      by (auto simp: s1_def followed_references_def)
  qed
next
  case (3 n taskMap s)
  then show ?case by simp
next
  case (4 n taskMap key dep rest s)
  show ?case
  proof (cases dep)
    case Nullish
    with 4 show ?thesis by simp
  next
    case (Single d)
    show ?thesis
    proof (cases "d = []")
      case True
      with 4 Single show ?thesis by simp
    next
      case False
      then have t: "truthy dep" using Single by simp
      from "4.prems" t Single obtain s1 where
        tt: "taskMap_truthy taskMap d" and
        v: "visit n taskMap d s = Some (Inr s1)" and
        k: "visit_keys n taskMap rest s1 = Some (Inr s')"
        by (auto split: if_splits option.splits sum.splits)
      from "4.IH"(1)[OF t Single tt v] "4.IH"(2)[OF t Single tt v refl k] False Single
      show ?thesis by auto
    qed
  next
    case (Group ds)
    then have t: "truthy dep" by simp
    from "4.prems" t Group obtain s1 where
      v: "visit_group n taskMap ds s = Some (Inr s1)" and
      k: "visit_keys n taskMap rest s1 = Some (Inr s')"
      by (auto split: option.splits sum.splits)
    from "4.IH"(3)[OF t Group v] "4.IH"(4)[OF t Group v refl k] Group
    show ?thesis by auto
  qed
next
  case (5 n taskMap s)
  then show ?case by simp
next
  case (6 n taskMap rest s)
  then show ?case by simp
next
  case (7 n taskMap d rest s)
  from "7.prems" obtain s1 where
    tt: "taskMap_truthy taskMap d" and
    v: "visit n taskMap d s = Some (Inr s1)" and
    k: "visit_group n taskMap rest s1 = Some (Inr s')"
    by (auto split: if_splits option.splits sum.splits)
  from "7.IH"(1)[OF tt v] "7.IH"(2)[OF tt v refl k]
  show ?case by auto
qed

lemma visit_all_followed:
  "visit_all n m ts s = Some (Inr s') \<Longrightarrow> (\<forall>t \<in> set ts. m (td_id t) = Some t) \<Longrightarrow>
     visited s \<subseteq> visited s'
     \<and> (\<forall>t \<in> set ts. td_id t \<notin> visited s \<and> td_id t \<in> visited s')
     \<and> (\<forall>t \<in> set ts. \<forall>d \<in> set (followed_references t).
            d \<in> dom m \<and> d \<notin> visited s \<and> d \<notin> td_id ` set ts)"
proof (induction ts arbitrary: s)
  case Nil
  then show ?case by simp
next
  case (Cons t ts)
  from Cons.prems(1) obtain s1 where
    v: "visit n m (td_id t) s = Some (Inr s1)" and
    a: "visit_all n m ts s1 = Some (Inr s')"
    by (auto split: option.splits sum.splits)
  from Cons.prems(2) have mt: "m (td_id t) = Some t" and mts: "\<forall>u \<in> set ts. m (td_id u) = Some u"
    by simp_all
  from visit_followed(1)[OF v] mt have
    1: "visited s \<subseteq> visited s1" "td_id t \<notin> visited s" "td_id t \<in> visited s1"
       "\<forall>d \<in> set (followed_references t).
              d \<in> dom m \<and> d \<notin> visited s \<and> d \<noteq> td_id t \<and> d \<in> visited s1"
    by simp_all
  from Cons.IH[OF a mts] have
    2: "visited s1 \<subseteq> visited s'"
       "\<forall>u \<in> set ts. td_id u \<notin> visited s1 \<and> td_id u \<in> visited s'"
       "\<forall>u \<in> set ts. \<forall>d \<in> set (followed_references u).
            d \<in> dom m \<and> d \<notin> visited s1 \<and> d \<notin> td_id ` set ts"
    by simp_all
  have A: "visited s \<subseteq> visited s'" using 1(1) 2(1) by blast
  have B: "\<forall>u \<in> set (t # ts). td_id u \<notin> visited s \<and> td_id u \<in> visited s'"
    using 1 2 by auto
  have C: "\<forall>u \<in> set (t # ts). \<forall>d \<in> set (followed_references u).
            d \<in> dom m \<and> d \<notin> visited s \<and> d \<notin> td_id ` set (t # ts)"
  proof (intro ballI)
    fix u d assume u: "u \<in> set (t # ts)" and d: "d \<in> set (followed_references u)"
    show "d \<in> dom m \<and> d \<notin> visited s \<and> d \<notin> td_id ` set (t # ts)"
    proof (cases "u = t")
      case True
      with d 1(4) have "d \<in> dom m" "d \<notin> visited s" "d \<noteq> td_id t" "d \<in> visited s1" by auto
      moreover from 2(2) \<open>d \<in> visited s1\<close> have "d \<notin> td_id ` set ts" by auto
      ultimately show ?thesis by auto
    next
      case False
      with u have "u \<in> set ts" by simp
      with d 2(3) have "d \<in> dom m" "d \<notin> visited s1" "d \<notin> td_id ` set ts" by auto
      moreover from \<open>d \<notin> visited s1\<close> 1(1) have "d \<notin> visited s" by blast
      moreover from \<open>d \<notin> visited s1\<close> 1(3) have "d \<noteq> td_id t" by blast
      ultimately show ?thesis by auto
    qed
  qed
  from A B C show ?case by blast
qed

lemma fill_taskMap_keeps:
  "fill_taskMap m0 tasks = Inr m \<Longrightarrow> k \<in> dom m0 \<Longrightarrow> m k = m0 k"
proof (induction tasks arbitrary: m0)
  case Nil
  then show ?case by simp
next
  case (Cons task tasks)
  from Cons.prems(1) have nt: "\<not> taskMap_truthy m0 (td_id task)"
    and f: "fill_taskMap (m0(td_id task \<mapsto> task)) tasks = Inr m"
    by (auto split: if_splits)
  from nt Cons.prems(2) have "k \<noteq> td_id task"
    by (auto simp: taskMap_truthy_def split: option.splits)
  then have e: "(m0(td_id task \<mapsto> task)) k = m0 k" by simp
  have "k \<in> dom (m0(td_id task \<mapsto> task))" using Cons.prems(2) by simp
  from Cons.IH[OF f this] have "m k = (m0(td_id task \<mapsto> task)) k" .
  with e show ?case by (simp only:)
qed

lemma fill_taskMap_success:
  "fill_taskMap m0 tasks = Inr m \<Longrightarrow>
     distinct (map td_id tasks)
     \<and> (\<forall>t \<in> set tasks. td_id t \<notin> set Object_prototype_keys \<and> td_id t \<notin> dom m0
           \<and> m (td_id t) = Some t)"
proof (induction tasks arbitrary: m0)
  case Nil
  then show ?case by simp
next
  case (Cons task tasks)
  from Cons.prems(1) have nt: "\<not> taskMap_truthy m0 (td_id task)"
    and f: "fill_taskMap (m0(td_id task \<mapsto> task)) tasks = Inr m"
    by (auto split: if_splits)
  from nt have t: "td_id task \<notin> set Object_prototype_keys" "td_id task \<notin> dom m0"
    by (auto simp: taskMap_truthy_def split: option.splits)
  from fill_taskMap_keeps[OF f, of "td_id task"] have mt: "m (td_id task) = Some task" by simp
  from Cons.IH[OF f] have ihd: "distinct (map td_id tasks)" by blast
  from Cons.IH[OF f] have ih2: "\<forall>u \<in> set tasks. td_id u \<notin> set Object_prototype_keys
        \<and> td_id u \<notin> dom (m0(td_id task \<mapsto> task)) \<and> m (td_id u) = Some u"
    by blast
  have dd: "dom (m0(td_id task \<mapsto> task)) = insert (td_id task) (dom m0)" by simp
  from ih2 have ne: "td_id task \<notin> td_id ` set tasks" unfolding dd by auto
  from ih2 have nd: "\<forall>u \<in> set tasks. td_id u \<notin> dom m0" unfolding dd by auto
  from ih2 have rest: "\<forall>u \<in> set tasks. td_id u \<notin> set Object_prototype_keys \<and> m (td_id u) = Some u"
    by blast
  from ihd ne have "distinct (map td_id (task # tasks))" by simp
  moreover from t mt nd rest
  have "\<forall>u \<in> set (task # tasks). td_id u \<notin> set Object_prototype_keys \<and> td_id u \<notin> dom m0
           \<and> m (td_id u) = Some u"
    by simp
  ultimately show ?case by blast
qed

lemma fill_taskMap_possible:
  "distinct (map td_id tasks) \<Longrightarrow>
   (\<forall>t \<in> set tasks. td_id t \<notin> set Object_prototype_keys \<and> td_id t \<notin> dom m0) \<Longrightarrow>
   \<exists>m. fill_taskMap m0 tasks = Inr m"
proof (induction tasks arbitrary: m0)
  case Nil
  then show ?case by simp
next
  case (Cons task tasks)
  from Cons.prems have nt: "\<not> taskMap_truthy m0 (td_id task)"
    by (auto simp: taskMap_truthy_def split: option.splits)
  have dd: "dom (m0(td_id task \<mapsto> task)) = insert (td_id task) (dom m0)" by simp
  from Cons.prems(1) have d: "distinct (map td_id tasks)"
    and ni: "td_id task \<notin> td_id ` set tasks" by simp_all
  from ni have ne: "\<forall>u \<in> set tasks. td_id u \<noteq> td_id task" by (metis imageI)
  from Cons.prems(2) ne
  have "\<forall>t \<in> set tasks. td_id t \<notin> set Object_prototype_keys
           \<and> td_id t \<notin> dom (m0(td_id task \<mapsto> task))"
    unfolding dd by simp
  from Cons.IH[OF d this] obtain m' where
    "fill_taskMap (m0(td_id task \<mapsto> task)) tasks = Inr m'" by blast
  with nt have "fill_taskMap m0 (task # tasks) = Inr m'" by simp
  then show ?case by blast
qed

lemma visit_group_nothing_followed:
  "followed_of_group ds = [] \<Longrightarrow> visit_group n m ds s = Some (Inr s)"
  by (induction ds rule: followed_of_group.induct) simp_all

lemma visit_keys_nothing_followed:
  "followed_of_keys deps = [] \<Longrightarrow> visit_keys n m deps s = Some (Inr s)"
  by (induction deps rule: followed_of_keys.induct)
     (auto simp: visit_group_nothing_followed split: if_splits)

lemma visit_nothing_followed:
  assumes "m tid = Some t" "followed_references t = []" "tid \<notin> visited s"
    "tid \<notin> set Object_prototype_keys"
  shows "visit (Suc n) m tid s = Some (Inr (s\<lparr>visited := insert tid (visited s)\<rparr>))"
  using assms
  by (auto simp: visited_truthy_def followed_references_def Let_def visit_keys_nothing_followed
      split: option.splits)

lemma visit_all_nothing_followed:
  "distinct (map td_id ts) \<Longrightarrow>
   (\<forall>t \<in> set ts. m (td_id t) = Some t \<and> followed_references t = []
       \<and> td_id t \<notin> visited s \<and> td_id t \<notin> set Object_prototype_keys) \<Longrightarrow>
   \<exists>s'. visit_all (Suc n) m ts s = Some (Inr s')"
proof (induction ts arbitrary: s)
  case Nil
  then show ?case by simp
next
  case (Cons t ts)
  from Cons.prems(2) have t: "m (td_id t) = Some t" "followed_references t = []"
    "td_id t \<notin> visited s" "td_id t \<notin> set Object_prototype_keys" by simp_all
  have v: "visit (Suc n) m (td_id t) s
      = Some (Inr (s\<lparr>visited := insert (td_id t) (visited s)\<rparr>))"
    by (rule visit_nothing_followed[of m "td_id t" t s n, OF t])
  from Cons.prems(1) have d: "distinct (map td_id ts)"
    and ni: "td_id t \<notin> td_id ` set ts" by simp_all
  from ni have ne: "\<forall>u \<in> set ts. td_id u \<noteq> td_id t" by (metis imageI)
  from Cons.prems(2) ne
  have "\<forall>u \<in> set ts. m (td_id u) = Some u \<and> followed_references u = []
          \<and> td_id u \<notin> visited (s\<lparr>visited := insert (td_id t) (visited s)\<rparr>)
          \<and> td_id u \<notin> set Object_prototype_keys"
    by simp
  from Cons.IH[OF d this] v show ?case by simp
qed

text \<open>
  What the validator accepts: exactly the task lists with pairwise distinct ids,
  none of them the name of a member of \<^verbatim>\<open>Object.prototype\<close>, in which no task has
  a reference that \<^verbatim>\<open>visit\<close> follows.  A followed reference either names no task
  (reported as missing) or names a task that is reached a second time, by the
  outer loop or by another reference, and is then reported as a cycle.
\<close>

lemma validateTaskGraph_accepts_iff:
  "validateTaskGraph tasks = Some (Inr ()) \<longleftrightarrow>
     distinct (map td_id tasks)
     \<and> (\<forall>t \<in> set tasks. td_id t \<notin> set Object_prototype_keys \<and> followed_references t = [])"
proof
  assume ok: "validateTaskGraph tasks = Some (Inr ())"
  then obtain m s' where f: "fill_taskMap Map.empty tasks = Inr m"
    and a: "visit_all (Suc (length tasks)) m tasks \<lparr>visited = {}, stack = []\<rparr> = Some (Inr s')"
    by (auto simp: validateTaskGraph_def split: sum.splits option.splits)
  from fill_taskMap_success[OF f] have d: "distinct (map td_id tasks)"
    and p: "\<forall>t \<in> set tasks. td_id t \<notin> set Object_prototype_keys \<and> m (td_id t) = Some t"
    by simp_all
  from fill_taskMap_dom[OF f] have dm: "dom m = td_id ` set tasks" by simp
  from p have "\<forall>t \<in> set tasks. m (td_id t) = Some t" by simp
  from visit_all_followed[OF a this] dm
  have "\<forall>t \<in> set tasks. \<forall>d \<in> set (followed_references t). False" by auto
  then have "\<forall>t \<in> set tasks. set (followed_references t) = {}"
    by auto
  then have "\<forall>t \<in> set tasks. followed_references t = []"
    by simp
  with d p show "distinct (map td_id tasks)
     \<and> (\<forall>t \<in> set tasks. td_id t \<notin> set Object_prototype_keys \<and> followed_references t = [])"
    by simp
next
  assume h: "distinct (map td_id tasks)
     \<and> (\<forall>t \<in> set tasks. td_id t \<notin> set Object_prototype_keys \<and> followed_references t = [])"
  then obtain m where f: "fill_taskMap Map.empty tasks = Inr m"
    using fill_taskMap_possible[of tasks Map.empty] by auto
  from fill_taskMap_success[OF f] have p: "\<forall>t \<in> set tasks. m (td_id t) = Some t" by simp
  from h p have "\<exists>s'. visit_all (Suc (length tasks)) m tasks \<lparr>visited = {}, stack = []\<rparr> = Some (Inr s')"
    by (intro visit_all_nothing_followed) auto
  with f show "validateTaskGraph tasks = Some (Inr ())"
    by (auto simp: validateTaskGraph_def)
qed

text \<open>
  An empty string inside a group is a string: it is looked up like any other id
  (and reported when no task has the empty id).
\<close>

lemma validateTaskGraph_empty_string_in_group:
  "validateTaskGraph
     [\<lparr>td_id = ''a'', td_type = ''task1'', td_dependencies = Some [(''g'', Group [Str []])],
       td_config = None\<rparr>] = Some (Inl (DependencyNotFoundError []))"
  by (simp add: validateTaskGraph_def taskMap_truthy_def visited_truthy_def
      Object_prototype_keys_def)

text \<open>
  Claim C10.  A dependency value that is falsy (the empty string, \<^verbatim>\<open>null\<close>,
  \<^verbatim>\<open>undefined\<close>) and a group element that is not a string are skipped: validation
  of a descriptor gives the same outcome, error for error, as validation of the
  descriptor with those references taken out, so they are neither reported as
  missing nor visited.  A descriptor that has only such references passes.
\<close>

theorem validateTaskGraph_skips_falsy_and_nonstring:
  "validateTaskGraph (map strip_task tasks) = validateTaskGraph tasks
   \<and> validateTaskGraph
       [\<lparr>td_id = ''a'', td_type = ''task1'',
         td_dependencies = Some [(''x'', Single []), (''y'', Nullish), (''z'', Group [NonString])],
         td_config = None\<rparr>] = Some (Inr ())"
proof
  show "validateTaskGraph (map strip_task tasks) = validateTaskGraph tasks"
    by (rule validateTaskGraph_strip)
  show "validateTaskGraph
       [\<lparr>td_id = ''a'', td_type = ''task1'',
         td_dependencies = Some [(''x'', Single []), (''y'', Nullish), (''z'', Group [NonString])],
         td_config = None\<rparr>] = Some (Inr ())"
    by (simp add: validateTaskGraph_def taskMap_truthy_def visited_truthy_def
        Object_prototype_keys_def)
qed

subsection \<open>Dependency bookkeeping\<close>

text \<open>Unfolding rules for running the scheduler's functions on concrete workflows.\<close>

lemmas wf_eval = start_workflow_def initial_state_def DependencyCounter_new_def
  task_dependency_def Object_prototype_keys_def
  initializeDependencies_def depKeys_of_def DependencyCounter_increment_def
  dependents_add_def descriptor_dep_at_def Set_add_def DependencyCounter_entries_def

lemmas upd_eval = updateDependencies_def depKeys_of_def decrement_and_resolve_def
  DependencyCounter_decrement_def Deferred_resolve_def descriptor_dep_at_def

text \<open>
  Claim C3, at inputs where the code departs from it.  The first workflow is the
  example of the repository's README: \<^verbatim>\<open>b\<close> names \<^verbatim>\<open>a\<close> twice, once under a scalar
  key and once in a group, so initialization gives \<^verbatim>\<open>b\<close> the count 2 and puts it
  once into the dependents of \<^verbatim>\<open>a\<close>.  When \<^verbatim>\<open>a\<close> finishes, \<^verbatim>\<open>updateDependencies\<close>
  decrements \<^verbatim>\<open>b\<close> once: the count stays at 1 and the readiness gate of \<^verbatim>\<open>b\<close> is
  not fired.  In the second call \<^verbatim>\<open>b\<close> (depending on \<^verbatim>\<open>a\<close> under the key \<^verbatim>\<open>a\<close>, and
  depended on by \<^verbatim>\<open>c\<close>) finishes: the first loop decrements the count stored under
  \<^verbatim>\<open>b\<close>'s own dependency key, which is 0, and throws before \<^verbatim>\<open>c\<close> is decremented.
\<close>

theorem updateDependencies_single_decrement:
  "start_workflow
     \<lparr>wf_id = ''w'',
      wf_tasks =
        [(''a'', \<lparr>t_id = ''a'', t_type = ''task1'', t_dependencies = [], t_config = [], t_output = ''uint8''\<rparr>),
         (''b'', \<lparr>t_id = ''b'', t_type = ''task2'',
                  t_dependencies = [(''a'', Buffer (SharedArrayBuffer 8)), (''b'', Buffers [SharedArrayBuffer 8])],
                  t_config = [(''key'', ''value'')], t_output = ''uint8''\<rparr>)],
      wf_taskDescriptors =
        [(''a'', \<lparr>td_id = ''a'', td_type = ''task1'', td_dependencies = None, td_config = None\<rparr>),
         (''b'', \<lparr>td_id = ''b'', td_type = ''task2'',
                  td_dependencies = Some [(''a'', Single ''a''), (''b'', Group [Str ''a''])],
                  td_config = Some [(''key'', ''value'')]\<rparr>)]\<rparr>
     = Inr \<lparr>results = [], taskReadiness = [(''a'', Unsettled), (''b'', Unsettled)],
            dependencyCount = [(''a'', 0), (''b'', 2)],
            dependents = [(''a'', [''b'']), (''b'', [])],
            remainingTasks = [''a'', ''b''], deferredMessage = Some Unsettled, aborted = False\<rparr>
   \<and> updateDependencies
       \<lparr>t_id = ''a'', t_type = ''task1'', t_dependencies = [], t_config = [], t_output = ''uint8''\<rparr>
       \<lparr>td_id = ''a'', td_type = ''task1'', td_dependencies = None, td_config = None\<rparr>
       [(''a'', 0), (''b'', 2)] [(''a'', [''b'']), (''b'', [])] [(''a'', Unsettled), (''b'', Unsettled)]
     = (([(''a'', 0), (''b'', 1)], [(''a'', Unsettled), (''b'', Unsettled)]), None)
   \<and> updateDependencies
       \<lparr>t_id = ''b'', t_type = ''task2'', t_dependencies = [(''a'', Buffer (SharedArrayBuffer 8))],
         t_config = [], t_output = ''uint8''\<rparr>
       \<lparr>td_id = ''b'', td_type = ''task2'', td_dependencies = Some [(''a'', Single ''a'')],
         td_config = None\<rparr>
       [(''a'', 0), (''b'', 0), (''c'', 1)] [(''a'', [''b'']), (''b'', [''c'']), (''c'', [])]
       [(''a'', Unsettled), (''b'', Resolved ()), (''c'', Unsettled)]
     = (([(''a'', 0), (''b'', 0), (''c'', 1)],
         [(''a'', Unsettled), (''b'', Resolved ()), (''c'', Unsettled)]),
        Some (CountAlreadyZero ''a''))"
  by (simp add: wf_eval upd_eval)

text \<open>
  Claim C4, at inputs where the code departs from it.  Task \<^verbatim>\<open>b\<close> lists \<^verbatim>\<open>a\<close> as a
  scalar dependency under the key \<^verbatim>\<open>c\<close>.  The scalar branch of
  \<^verbatim>\<open>initializeDependencies\<close> adds \<^verbatim>\<open>b\<close> to the dependents of the key: with a task
  named \<^verbatim>\<open>c\<close> in the workflow, \<^verbatim>\<open>b\<close> ends up among the dependents of \<^verbatim>\<open>c\<close> and not
  of \<^verbatim>\<open>a\<close>; with a key that names no task (\<^verbatim>\<open>input\<close>), initialization throws.  It
  also throws for a group dependency on a task that comes later in \<^verbatim>\<open>tasks\<close>,
  whose set of dependents does not exist yet.
\<close>

theorem initializeDependencies_scalar_key:
  "start_workflow
     \<lparr>wf_id = ''w'',
      wf_tasks =
        [(''a'', \<lparr>t_id = ''a'', t_type = ''task1'', t_dependencies = [], t_config = [], t_output = ''uint8''\<rparr>),
         (''c'', \<lparr>t_id = ''c'', t_type = ''task1'', t_dependencies = [], t_config = [], t_output = ''uint8''\<rparr>),
         (''b'', \<lparr>t_id = ''b'', t_type = ''task2'',
                  t_dependencies = [(''c'', Buffer (SharedArrayBuffer 8))],
                  t_config = [], t_output = ''uint8''\<rparr>)],
      wf_taskDescriptors =
        [(''a'', \<lparr>td_id = ''a'', td_type = ''task1'', td_dependencies = None, td_config = None\<rparr>),
         (''c'', \<lparr>td_id = ''c'', td_type = ''task1'', td_dependencies = None, td_config = None\<rparr>),
         (''b'', \<lparr>td_id = ''b'', td_type = ''task2'',
                  td_dependencies = Some [(''c'', Single ''a'')], td_config = None\<rparr>)]\<rparr>
     = Inr \<lparr>results = [],
            taskReadiness = [(''a'', Unsettled), (''c'', Unsettled), (''b'', Unsettled)],
            dependencyCount = [(''a'', 0), (''c'', 0), (''b'', 1)],
            dependents = [(''a'', []), (''c'', [''b'']), (''b'', [])],
            remainingTasks = [''a'', ''c'', ''b''], deferredMessage = Some Unsettled, aborted = False\<rparr>
   \<and> start_workflow
     \<lparr>wf_id = ''w'',
      wf_tasks =
        [(''a'', \<lparr>t_id = ''a'', t_type = ''task1'', t_dependencies = [], t_config = [], t_output = ''uint8''\<rparr>),
         (''b'', \<lparr>t_id = ''b'', t_type = ''task2'',
                  t_dependencies = [(''input'', Buffer (SharedArrayBuffer 8))],
                  t_config = [], t_output = ''uint8''\<rparr>)],
      wf_taskDescriptors =
        [(''a'', \<lparr>td_id = ''a'', td_type = ''task1'', td_dependencies = None, td_config = None\<rparr>),
         (''b'', \<lparr>td_id = ''b'', td_type = ''task2'',
                  td_dependencies = Some [(''input'', Single ''a'')], td_config = None\<rparr>)]\<rparr>
     = Inl (TypeError ''Cannot read properties of undefined (reading add)'')
   \<and> start_workflow
     \<lparr>wf_id = ''w'',
      wf_tasks =
        [(''b'', \<lparr>t_id = ''b'', t_type = ''task2'',
                  t_dependencies = [(''g'', Buffers [SharedArrayBuffer 8])],
                  t_config = [], t_output = ''uint8''\<rparr>),
         (''a'', \<lparr>t_id = ''a'', t_type = ''task1'', t_dependencies = [], t_config = [], t_output = ''uint8''\<rparr>)],
      wf_taskDescriptors =
        [(''a'', \<lparr>td_id = ''a'', td_type = ''task1'', td_dependencies = None, td_config = None\<rparr>),
         (''b'', \<lparr>td_id = ''b'', td_type = ''task2'',
                  td_dependencies = Some [(''g'', Group [Str ''a''])], td_config = None\<rparr>)]\<rparr>
     = Inl (TypeError ''Cannot read properties of undefined (reading add)'')"
  by (simp add: wf_eval)

subsection \<open>The generator \<^verbatim>\<open>executeWorkflow\<close>\<close>

lemmas loop_eval = executeWorkflow_def executeWorkflow_api_def signal_aborted_def
  abort_and_break_def abort_def reject_def abort_api_def reject_api_def Deferred_reject_def
  final_message_def execute_event_def isErrorResponse_def resolve_def resolve_api_def
  resolve_with_def Set_delete_def

text \<open>
  A task's error response reaches the generator through \<^verbatim>\<open>reject\<close>: the awaited
  promise rejects, the generator throws the response and yields nothing more.
\<close>

lemma executeWorkflow_error_response:
  "executeWorkflow
     \<lparr>wf_id = ''w'',
      wf_tasks =
        [(''a'', \<lparr>t_id = ''a'', t_type = ''task1'', t_dependencies = [], t_config = [], t_output = ''uint8''\<rparr>)],
      wf_taskDescriptors =
        [(''a'', \<lparr>td_id = ''a'', td_type = ''task1'', td_dependencies = None, td_config = None\<rparr>)]\<rparr>
     None
     [[RunnerMessage \<lparr>r_id = ''a'', r_taskId = ''a'', r_output = None, r_finish = False,
                       r_ok = Some False, r_error = ''boom''\<rparr>]]
     = ([], Threw (ErrorResponse ''boom''))"
  by (simp add: wf_eval loop_eval)

text \<open>
  A chain \<^verbatim>\<open>a\<close>, \<^verbatim>\<open>b\<close>, \<^verbatim>\<open>c\<close> with scalar dependencies keyed by the target, every task
  delivering its final message: when \<^verbatim>\<open>b\<close> finishes, \<^verbatim>\<open>updateDependencies\<close> throws
  inside \<^verbatim>\<open>resolve\<close>, the fibre passes the error to \<^verbatim>\<open>reject\<close>, and the generator
  ends with it after the first intermediate message.
\<close>

lemma executeWorkflow_chain:
  "executeWorkflow
     \<lparr>wf_id = ''w'',
      wf_tasks =
        [(''a'', \<lparr>t_id = ''a'', t_type = ''t'', t_dependencies = [], t_config = [], t_output = ''uint8''\<rparr>),
         (''b'', \<lparr>t_id = ''b'', t_type = ''t'', t_dependencies = [(''a'', Buffer (SharedArrayBuffer 1))],
                  t_config = [], t_output = ''uint8''\<rparr>),
         (''c'', \<lparr>t_id = ''c'', t_type = ''t'', t_dependencies = [(''b'', Buffer (SharedArrayBuffer 1))],
                  t_config = [], t_output = ''uint8''\<rparr>)],
      wf_taskDescriptors =
        [(''a'', \<lparr>td_id = ''a'', td_type = ''t'', td_dependencies = None, td_config = None\<rparr>),
         (''b'', \<lparr>td_id = ''b'', td_type = ''t'', td_dependencies = Some [(''a'', Single ''a'')],
                  td_config = None\<rparr>),
         (''c'', \<lparr>td_id = ''c'', td_type = ''t'', td_dependencies = Some [(''b'', Single ''b'')],
                  td_config = None\<rparr>)]\<rparr>
     None
     [[RunnerMessage \<lparr>r_id = ''a'', r_taskId = ''a'', r_output = Some (SharedArrayBuffer 1),
                       r_finish = True, r_ok = None, r_error = []\<rparr>],
      [RunnerMessage \<lparr>r_id = ''b'', r_taskId = ''b'', r_output = Some (SharedArrayBuffer 1),
                       r_finish = True, r_ok = None, r_error = []\<rparr>],
      [RunnerMessage \<lparr>r_id = ''c'', r_taskId = ''c'', r_output = Some (SharedArrayBuffer 1),
                       r_finish = True, r_ok = None, r_error = []\<rparr>]]
     = ([IntermediateWorkflowResult ''a'' (Some (SharedArrayBuffer 1))], Threw (CountAlreadyZero ''a''))"
  by (simp add: wf_eval upd_eval loop_eval Let_def)

text \<open>
  Two tasks without dependencies; the final message of \<^verbatim>\<open>b\<close> arrives while the
  generator is suspended at the \<^verbatim>\<open>yield\<close> for \<^verbatim>\<open>a\<close>.  It resolves a deferred message
  nobody awaits: no intermediate message for \<^verbatim>\<open>b\<close> is yielded, and since no task
  remains the loop ends and the final message holds both results.  When the two
  messages come in separate turns, both are yielded.
\<close>

lemma executeWorkflow_message_between_awaits:
  "executeWorkflow
     \<lparr>wf_id = ''w'',
      wf_tasks =
        [(''a'', \<lparr>t_id = ''a'', t_type = ''t'', t_dependencies = [], t_config = [], t_output = ''uint8''\<rparr>),
         (''b'', \<lparr>t_id = ''b'', t_type = ''t'', t_dependencies = [], t_config = [], t_output = ''uint8''\<rparr>)],
      wf_taskDescriptors =
        [(''a'', \<lparr>td_id = ''a'', td_type = ''t'', td_dependencies = None, td_config = None\<rparr>),
         (''b'', \<lparr>td_id = ''b'', td_type = ''t'', td_dependencies = None, td_config = None\<rparr>)]\<rparr>
     None
     [[RunnerMessage \<lparr>r_id = ''a'', r_taskId = ''a'', r_output = Some (SharedArrayBuffer 1),
                       r_finish = True, r_ok = None, r_error = []\<rparr>,
       RunnerMessage \<lparr>r_id = ''b'', r_taskId = ''b'', r_output = Some (SharedArrayBuffer 2),
                       r_finish = True, r_ok = None, r_error = []\<rparr>]]
     = ([IntermediateWorkflowResult ''a'' (Some (SharedArrayBuffer 1)),
         FinalWorkflowResult
           [''a'' \<mapsto> SharedArrayBuffer 1, ''b'' \<mapsto> SharedArrayBuffer 2]],
        Returned)
   \<and> executeWorkflow
     \<lparr>wf_id = ''w'',
      wf_tasks =
        [(''a'', \<lparr>t_id = ''a'', t_type = ''t'', t_dependencies = [], t_config = [], t_output = ''uint8''\<rparr>),
         (''b'', \<lparr>t_id = ''b'', t_type = ''t'', t_dependencies = [], t_config = [], t_output = ''uint8''\<rparr>)],
      wf_taskDescriptors =
        [(''a'', \<lparr>td_id = ''a'', td_type = ''t'', td_dependencies = None, td_config = None\<rparr>),
         (''b'', \<lparr>td_id = ''b'', td_type = ''t'', td_dependencies = None, td_config = None\<rparr>)]\<rparr>
     None
     [[RunnerMessage \<lparr>r_id = ''a'', r_taskId = ''a'', r_output = Some (SharedArrayBuffer 1),
                       r_finish = True, r_ok = None, r_error = []\<rparr>],
      [RunnerMessage \<lparr>r_id = ''b'', r_taskId = ''b'', r_output = Some (SharedArrayBuffer 2),
                       r_finish = True, r_ok = None, r_error = []\<rparr>]]
     = ([IntermediateWorkflowResult ''a'' (Some (SharedArrayBuffer 1)),
         IntermediateWorkflowResult ''b'' (Some (SharedArrayBuffer 2)),
         FinalWorkflowResult
           [''a'' \<mapsto> SharedArrayBuffer 1, ''b'' \<mapsto> SharedArrayBuffer 2]],
        Returned)"
  by (simp add: wf_eval upd_eval loop_eval Let_def fun_eq_iff)

text \<open>
  Claim C2, at inputs where the code departs from it.  A workflow of one task
  and a signal already aborted at the first pass through the loop: the later
  revision calls \<^verbatim>\<open>abort\<close>, which rejects the deferred message with an
  \<^verbatim>\<open>AbortError\<close>, then leaves the loop by \<^verbatim>\<open>break\<close> without awaiting that promise,
  yields the final message with the results so far and returns: the stream ends
  with \<^verbatim>\<open>finish: true\<close> and no error.  The same happens when the abort is seen
  after an intermediate message.  In \<^verbatim>\<open>src/main/api.ts\<close> the run does end with
  an error, but with the one \<^verbatim>\<open>Deferred\<close> throws when \<^verbatim>\<open>abort\<close> and \<^verbatim>\<open>reject\<close> both
  reject the readiness of the remaining task.
\<close>

theorem executeWorkflow_final_after_abort:
  "executeWorkflow
     \<lparr>wf_id = ''w'',
      wf_tasks =
        [(''a'', \<lparr>t_id = ''a'', t_type = ''task1'', t_dependencies = [], t_config = [], t_output = ''uint8''\<rparr>)],
      wf_taskDescriptors =
        [(''a'', \<lparr>td_id = ''a'', td_type = ''task1'', td_dependencies = None, td_config = None\<rparr>)]\<rparr>
     (Some 0) []
     = ([FinalWorkflowResult Map.empty], Returned)
   \<and> executeWorkflow
     \<lparr>wf_id = ''w'',
      wf_tasks =
        [(''a'', \<lparr>t_id = ''a'', t_type = ''task1'', t_dependencies = [], t_config = [], t_output = ''uint8''\<rparr>)],
      wf_taskDescriptors =
        [(''a'', \<lparr>td_id = ''a'', td_type = ''task1'', td_dependencies = None, td_config = None\<rparr>)]\<rparr>
     (Some 1)
     [[RunnerMessage \<lparr>r_id = ''a'', r_taskId = ''a'', r_output = None, r_finish = False,
                       r_ok = None, r_error = []\<rparr>]]
     = ([IntermediateWorkflowResult ''a'' None, FinalWorkflowResult Map.empty], Returned)
   \<and> executeWorkflow_api
     \<lparr>wf_id = ''w'',
      wf_tasks =
        [(''a'', \<lparr>t_id = ''a'', t_type = ''task1'', t_dependencies = [], t_config = [], t_output = ''uint8''\<rparr>)],
      wf_taskDescriptors =
        [(''a'', \<lparr>td_id = ''a'', td_type = ''task1'', td_dependencies = None, td_config = None\<rparr>)]\<rparr>
     (Some 0) []
     = ([], Threw DeferredAlreadySettled)"
  by (simp add: wf_eval upd_eval loop_eval Let_def)

text \<open>
  Claim C6 as stated fails: with no tasks the generator does not yield a final
  message with empty results.
\<close>

theorem executeWorkflow_no_tasks_counterexample:
  "\<not> (validateTaskGraph [] = Some (Inr ())
      \<and> executeWorkflow \<lparr>wf_id = ''w'', wf_tasks = [], wf_taskDescriptors = []\<rparr> None []
          = ([FinalWorkflowResult Map.empty], Returned))"
  by (simp add: wf_eval loop_eval)

text \<open>
  Claim C6, amended.  The empty list of descriptors passes validation.  With no
  tasks there is no task whose count is 0, so the guard ``Ensure there are
  initial tasks'' throws before anything is yielded, whatever the signal and the
  task fibres do.
\<close>

theorem executeWorkflow_no_tasks:
  "validateTaskGraph [] = Some (Inr ())
   \<and> executeWorkflow \<lparr>wf_id = i, wf_tasks = [], wf_taskDescriptors = ds\<rparr> signal script
       = ([], Threw NoInitialTasks)
   \<and> executeWorkflow_api \<lparr>wf_id = i, wf_tasks = [], wf_taskDescriptors = ds\<rparr> signal script
       = ([], Threw NoInitialTasks)"
  by (simp add: validateTaskGraph_def wf_eval loop_eval)

subsection \<open>The runner pool\<close>

text \<open>One release: the runner goes to the back of the idle queue, and the oldest pending acquire, if any, gets the front of it.\<close>

lemma release_step:
  assumes "release pool runner = Inr (pool', served)"
  shows "runner \<in> set (runners pool)"
    and "runners pool' = runners pool"
    and "pending pool = [] \<Longrightarrow> served = None \<and> pending pool' = [] \<and> idleRunners pool' = idleRunners pool @ [runner]"
    and "\<And>c cs. pending pool = c # cs \<Longrightarrow>
           served = Some (c, hd (idleRunners pool @ [runner])) \<and> pending pool' = cs
           \<and> idleRunners pool' = tl (idleRunners pool @ [runner])"
  using assms
  by (auto simp: release_def dispatchPending_def split: if_splits list.splits)

lemma release_all_fifo:
  "release_all pool rs = Inr (pool', served)
     \<Longrightarrow> map fst served = take (length rs) (pending pool)
         \<and> pending pool' = drop (length rs) (pending pool)"
proof (induction rs arbitrary: pool pool' served)
  case Nil
  then show ?case by simp
next
  case (Cons runner rest)
  from Cons.prems obtain p1 s1 p2 later where
    r: "release pool runner = Inr (p1, s1)" and
    ra: "release_all p1 rest = Inr (p2, later)" and
    eq: "pool' = p2" "served = (case s1 of None \<Rightarrow> later | Some s \<Rightarrow> s # later)"
    by (auto split: sum.splits)
  from Cons.IH[OF ra] have ih: "map fst later = take (length rest) (pending p1)"
    "pending p2 = drop (length rest) (pending p1)" by simp_all
  show ?case
  proof (cases "pending pool")
    case Nil
    with release_step(3)[OF r] ih eq show ?thesis by simp
  next
    case (Cons c cs)
    with release_step(4)[OF r] ih eq show ?thesis by simp
  qed
qed

lemma release_all_handover:
  "release_all pool rs = Inr (pool', served) \<Longrightarrow> idleRunners pool = []
     \<Longrightarrow> served = zip (pending pool) rs"
proof (induction rs arbitrary: pool pool' served)
  case Nil
  then show ?case by simp
next
  case (Cons runner rest)
  from Cons.prems(1) obtain p1 s1 p2 later where
    r: "release pool runner = Inr (p1, s1)" and
    ra: "release_all p1 rest = Inr (p2, later)" and
    eq: "pool' = p2" "served = (case s1 of None \<Rightarrow> later | Some s \<Rightarrow> s # later)"
    by (auto split: sum.splits)
  show ?case
  proof (cases "pending pool")
    case Nil
    from release_step(3)[OF r Nil] have s1: "s1 = None" "pending p1 = []" by simp_all
    from release_all_fifo[OF ra] s1 have "later = []" by simp
    with s1 eq Nil show ?thesis by simp
  next
    case (Cons c cs)
    from release_step(4)[OF r Cons] Cons.prems(2)
    have s1: "s1 = Some (c, runner)" "pending p1 = cs" "idleRunners p1 = []" by simp_all
    from Cons.IH[OF ra s1(3)] s1 eq Cons show ?thesis by simp
  qed
qed

text \<open>
  Claim C8.  With an idle runner, \<^verbatim>\<open>acquire\<close> returns the front of the idle queue.
  With none and \<^verbatim>\<open>size < max\<close> it starts the creation of a runner and leaves the
  pool as it is; whenever the ready message of that creation arrives, the worker
  joins \<^verbatim>\<open>#runners\<close>, the idle queue stays as it is, and the worker is what the
  caller gets.
  Otherwise the caller is put at the back of the pending queue.  Any sequence of
  releases serves the pending acquires from the front, in the order they were
  queued, one per release; with an empty idle queue each gets the runner released
  for it.
\<close>

theorem acquire_release_fifo:
  "(\<forall>runner rest. idleRunners pool = runner # rest \<longrightarrow>
       acquire pool caller = (Runner runner, pool\<lparr>idleRunners := rest\<rparr>))
   \<and> (idleRunners pool = [] \<and> size_of pool < options_max pool \<longrightarrow>
       (\<exists>c. acquire pool caller = (NewRunner c, pool)
          \<and> (\<forall>pool1 w. createRunner_onMessage pool1 c w True
                 = (Inr w, pool1\<lparr>runners := runners pool1 @ [w]\<rparr>))))
   \<and> (idleRunners pool = [] \<and> \<not> size_of pool < options_max pool \<longrightarrow>
       acquire pool caller = (Queued, pool\<lparr>pending := pending pool @ [caller]\<rparr>))
   \<and> (\<forall>pool' served. release_all pool rs = Inr (pool', served) \<longrightarrow>
         map fst served = take (length rs) (pending pool)
         \<and> pending pool' = drop (length rs) (pending pool)
         \<and> (idleRunners pool = [] \<longrightarrow> served = zip (pending pool) rs))"
proof (intro conjI allI impI)
  fix runner rest assume "idleRunners pool = runner # rest"
  then show "acquire pool caller = (Runner runner, pool\<lparr>idleRunners := rest\<rparr>)"
    by (simp add: acquire_def)
next
  assume a: "idleRunners pool = [] \<and> size_of pool < options_max pool"
  then have "acquire pool caller = (NewRunner (createRunner False), pool)"
    by (simp add: acquire_def size_of_def)
  moreover have "\<forall>pool1 w. createRunner_onMessage pool1 (createRunner False) w True
                 = (Inr w, pool1\<lparr>runners := runners pool1 @ [w]\<rparr>)"
    by (simp add: createRunner_onMessage_def createRunner_def)
  ultimately show "\<exists>c. acquire pool caller = (NewRunner c, pool)
          \<and> (\<forall>pool1 w. createRunner_onMessage pool1 c w True
                 = (Inr w, pool1\<lparr>runners := runners pool1 @ [w]\<rparr>))"
    by blast
next
  assume "idleRunners pool = [] \<and> \<not> size_of pool < options_max pool"
  then show "acquire pool caller = (Queued, pool\<lparr>pending := pending pool @ [caller]\<rparr>)"
    by (simp add: acquire_def size_of_def)
next
  fix pool' served assume r: "release_all pool rs = Inr (pool', served)"
  from release_all_fifo[OF r]
  show "map fst served = take (length rs) (pending pool)"
    and "pending pool' = drop (length rs) (pending pool)" by simp_all
  assume "idleRunners pool = []"
  with r show "served = zip (pending pool) rs" by (rule release_all_handover)
qed

text \<open>The four cases on pools with two runner slots.\<close>

theorem acquire_release_fifo_witness:
  "acquire \<lparr>runners = [1, 2], idleRunners = [2, 1], pending = [], options_min = 1, options_max = 2\<rparr> 7
     = (Runner 2, \<lparr>runners = [1, 2], idleRunners = [1], pending = [], options_min = 1, options_max = 2\<rparr>)
   \<and> (\<exists>c. acquire \<lparr>runners = [1], idleRunners = [], pending = [], options_min = 1, options_max = 2\<rparr> 7
            = (NewRunner c,
               \<lparr>runners = [1], idleRunners = [], pending = [], options_min = 1, options_max = 2\<rparr>)
          \<and> createRunner_onMessage
               \<lparr>runners = [1], idleRunners = [], pending = [], options_min = 1, options_max = 2\<rparr>
               c 2 True
            = (Inr 2,
               \<lparr>runners = [1, 2], idleRunners = [], pending = [], options_min = 1, options_max = 2\<rparr>))
   \<and> acquire \<lparr>runners = [1, 2], idleRunners = [], pending = [5], options_min = 1, options_max = 2\<rparr> 6
     = (Queued, \<lparr>runners = [1, 2], idleRunners = [], pending = [5, 6], options_min = 1, options_max = 2\<rparr>)
   \<and> release_all
        \<lparr>runners = [1, 2], idleRunners = [], pending = [5, 6], options_min = 1, options_max = 2\<rparr> [2, 1]
     = Inr (\<lparr>runners = [1, 2], idleRunners = [], pending = [], options_min = 1, options_max = 2\<rparr>,
            [(5, 2), (6, 1)])"
proof -
  let ?A = "\<lparr>runners = [1, 2], idleRunners = [2, 1], pending = [], options_min = 1, options_max = 2\<rparr>"
  let ?B = "\<lparr>runners = [1], idleRunners = [], pending = [], options_min = 1, options_max = 2\<rparr>"
  let ?C = "\<lparr>runners = [1, 2], idleRunners = [], pending = [5], options_min = 1, options_max = 2\<rparr>"
  let ?D = "\<lparr>runners = [1, 2], idleRunners = [], pending = [5, 6], options_min = 1, options_max = 2\<rparr>"
  let ?E = "\<lparr>runners = [1, 2], idleRunners = [], pending = [], options_min = 1, options_max = 2\<rparr>"
  have hA: "idleRunners ?A = 2 # [1]" by simp
  have hB: "idleRunners ?B = [] \<and> size_of ?B < options_max ?B" by (simp add: size_of_def)
  have hC: "idleRunners ?C = [] \<and> \<not> size_of ?C < options_max ?C" by (simp add: size_of_def)
  have hD: "idleRunners ?D = []" by simp
  have rD: "\<exists>p s. release_all ?D [2, 1] = Inr (p, s) \<and> runners p = [1, 2] \<and> idleRunners p = []
       \<and> options_min p = 1 \<and> options_max p = 2"
    by (simp add: release_def dispatchPending_def)
  then obtain p s where ps: "release_all ?D [2, 1] = Inr (p, s)" "runners p = [1, 2]"
    "idleRunners p = []" "options_min p = 1" "options_max p = 2" by blast
  have 1: "acquire ?A 7 = (Runner 2, ?A\<lparr>idleRunners := [1]\<rparr>)"
    using acquire_release_fifo[of ?A 7 "[]"] hA by blast
  have "\<exists>c. acquire ?B 7 = (NewRunner c, ?B)
          \<and> (\<forall>pool1 w. createRunner_onMessage pool1 c w True
                 = (Inr w, pool1\<lparr>runners := runners pool1 @ [w]\<rparr>))"
    using acquire_release_fifo[of ?B 7 "[]"] hB by blast
  then obtain c where c: "acquire ?B 7 = (NewRunner c, ?B)"
    "createRunner_onMessage ?B c 2 True = (Inr 2, ?B\<lparr>runners := runners ?B @ [2]\<rparr>)"
    by blast
  have 2: "\<exists>c. acquire ?B 7 = (NewRunner c, ?B)
      \<and> createRunner_onMessage ?B c 2 True
          = (Inr 2, \<lparr>runners = [1, 2], idleRunners = [], pending = [], options_min = 1, options_max = 2\<rparr>)"
    using c by (intro exI[of _ c]) simp
  have 4: "acquire ?C 6 = (Queued, ?C\<lparr>pending := pending ?C @ [6]\<rparr>)"
    using acquire_release_fifo[of ?C 6 "[]"] hC by blast
  have 5: "s = zip (pending ?D) [2, 1] \<and> pending p = drop (length [2, 1::nat]) (pending ?D)"
    using acquire_release_fifo[of ?D 0 "[2, 1]"] ps(1) hD by blast
  have p: "p = ?E" using 5 ps by (cases p) simp
  from 1 4 5 ps(1) p have rest: "acquire ?A 7 = (Runner 2, \<lparr>runners = [1, 2], idleRunners = [1], pending = [], options_min = 1, options_max = 2\<rparr>)"
    "acquire ?C 6 = (Queued, ?D)" "release_all ?D [2, 1] = Inr (?E, [(5, 2), (6, 1)])"
    by simp_all
  from rest 2 show ?thesis by blast
qed

text \<open>
  What the setters do keep: they refuse a value that would break
  \<^verbatim>\<open>0 < min \<le> max\<close>.  What they drop, once the size exceeds the new bound, is
  every idle runner: the pool is left with its busy runners.
\<close>

lemma setters_keep_min_le_max:
  assumes "0 < options_min pool" "options_min pool \<le> options_max pool"
    and "set_min pool v = Inr (pool', eff) \<or> set_max pool v = Inr (pool', eff)"
  shows "0 < options_min pool' \<and> options_min pool' \<le> options_max pool'"
  using assms
  by (auto simp: set_min_def set_max_def terminateIdleRunners_def Let_def
      split: assigned.splits if_splits)

lemma terminateIdleRunners_leaves_busy:
  "terminateIdleRunners pool = (pool', gone)
     \<Longrightarrow> gone = idleRunners pool \<and> idleRunners pool' = []
         \<and> runners pool' = filter (\<lambda>runner. runner \<notin> set (idleRunners pool)) (runners pool)"
  by (auto simp: terminateIdleRunners_def)

lemma set_max_above_bound:
  assumes "0 < value" "options_min pool \<le> value" "value < int (length (runners pool))"
  shows "set_max pool (IntegerValue value)
           = Inr (pool\<lparr>runners := filter (\<lambda>runner. runner \<notin> set (idleRunners pool)) (runners pool),
                        idleRunners := [], options_max := value\<rparr>,
                  \<lparr>created = 0, terminated = idleRunners pool\<rparr>)"
  using assms by (simp add: set_max_def terminateIdleRunners_def)

text \<open>
  Claim C7, at inputs where the code departs from it.  A pool with
  \<^verbatim>\<open>min = 2\<close>, \<^verbatim>\<open>max = 3\<close> and three runners, all idle, satisfies the invariant.
  Setting \<^verbatim>\<open>max\<close> to 2 terminates all three idle runners, not one, and leaves
  the pool with no runner, below \<^verbatim>\<open>min\<close>.  Setting \<^verbatim>\<open>min\<close> from 1 to 2 on a pool of
  three runners, two of them idle, terminates the two and leaves one.
\<close>

theorem setters_drop_below_min:
  "pool_invariant \<lparr>runners = [1, 2, 3], idleRunners = [1, 2, 3], pending = [], options_min = 2, options_max = 3\<rparr>
   \<and> set_max \<lparr>runners = [1, 2, 3], idleRunners = [1, 2, 3], pending = [], options_min = 2, options_max = 3\<rparr>
        (IntegerValue 2)
      = Inr (\<lparr>runners = [], idleRunners = [], pending = [], options_min = 2, options_max = 2\<rparr>,
             \<lparr>created = 0, terminated = [1, 2, 3]\<rparr>)
   \<and> \<not> pool_invariant \<lparr>runners = [], idleRunners = [], pending = [], options_min = 2, options_max = 2\<rparr>
   \<and> pool_invariant \<lparr>runners = [1, 2, 3], idleRunners = [1, 2], pending = [], options_min = 1, options_max = 3\<rparr>
   \<and> set_min \<lparr>runners = [1, 2, 3], idleRunners = [1, 2], pending = [], options_min = 1, options_max = 3\<rparr>
        (IntegerValue 2)
      = Inr (\<lparr>runners = [3], idleRunners = [], pending = [], options_min = 2, options_max = 3\<rparr>,
             \<lparr>created = 0, terminated = [1, 2]\<rparr>)
   \<and> \<not> pool_invariant \<lparr>runners = [3], idleRunners = [], pending = [], options_min = 2, options_max = 3\<rparr>"
  by (simp add: pool_invariant_def size_of_def set_max_def set_min_def terminateIdleRunners_def)


end
